theory Spec2Isabelle
  imports Main
begin

section \<open>Data model of package treeprint\<close>

text \<open>
  Go's \<^verbatim>\<open>Value\<close> and \<^verbatim>\<open>MetaValue\<close> are both \<^verbatim>\<open>interface{}\<close>: a dynamic value
  that may be nil. Strings are singled out because \<^verbatim>\<open>renderValue\<close> returns a freshly
  built string as a \<^verbatim>\<open>Value\<close>; every other dynamic payload is \<open>VDyn\<close>.
  \<^verbatim>\<open>reflect.DeepEqual\<close> is modelled by HOL equality on this type.
\<close>

datatype 'a Value = VNil | VStr string | VDyn 'a

text \<open>
  A \<^verbatim>\<open>*Node\<close> is an address; the nil pointer is \<open>None\<close>. The store is a total
  function from addresses to nodes together with the next unused address, so that
  \<^verbatim>\<open>&Node{...}\<close> always yields a fresh address.
\<close>

type_synonym ptr = nat

record 'a Node =
  Root :: "ptr option"
  Meta :: "'a Value"
  Value :: "'a Value"
  Nodes :: "ptr list"

record 'a heap =
  cells :: "ptr \<Rightarrow> 'a Node"
  next_free :: ptr

record 'a PrintFunc =
  MetaFunc :: "('a Value \<Rightarrow> string) option"
  ValueFunc :: "('a Value \<Rightarrow> string) option"

text \<open>The package-level variables: the three edge glyphs and \<^verbatim>\<open>IndentSize\<close>.\<close>

record globals =
  EdgeTypeLink :: string
  EdgeTypeMid :: string
  EdgeTypeEnd :: string
  IndentSize :: int

text \<open>Their initial values; the glyphs are the UTF-8 bytes of the box-drawing characters.\<close>

definition initial_globals :: globals where
  "initial_globals =
     \<lparr>EdgeTypeLink = [CHR 0xE2, CHR 0x94, CHR 0x82],
      EdgeTypeMid = [CHR 0xE2, CHR 0x94, CHR 0x9C, CHR 0xE2, CHR 0x94, CHR 0x80, CHR 0xE2, CHR 0x94, CHR 0x80],
      EdgeTypeEnd = [CHR 0xE2, CHR 0x94, CHR 0x94, CHR 0xE2, CHR 0x94, CHR 0x80, CHR 0xE2, CHR 0x94, CHR 0x80],
      IndentSize = 3\<rparr>"

text \<open>
  The run-time panics the package can raise. Go's \<^verbatim>\<open>int\<close> is modelled by \<open>int\<close>: the
  integers of the package are levels of a tree and the indentation width, far from the
  64-bit range.
\<close>

datatype panic = IndexOutOfRange | NegativeRepeatCount | NilDereference | MakeSliceLenOutOfRange

section \<open>Library functions used by the package\<close>

text \<open>\<^verbatim>\<open>fmt\<close>'s verb \<^verbatim>\<open>%v\<close>; the rendering of payloads other than nil and strings
  is the parameter \<open>fmtv\<close>.\<close>

fun Sprint :: "('a \<Rightarrow> string) \<Rightarrow> 'a Value \<Rightarrow> string" where
  "Sprint fmtv VNil = ''<nil>''"
| "Sprint fmtv (VStr s) = s"
| "Sprint fmtv (VDyn a) = fmtv a"

text \<open>\<^verbatim>\<open>strings.Repeat\<close> panics on a negative count.\<close>

definition strings_Repeat :: "string \<Rightarrow> int \<Rightarrow> panic + string" where
  "strings_Repeat s count =
     (if count < 0 then Inl NegativeRepeatCount else Inr (concat (replicate (nat count) s)))"

text \<open>\<^verbatim>\<open>strings.Split(s, "\n")\<close>: never empty, one more piece than there are line breaks.\<close>

fun strings_Split :: "string \<Rightarrow> string list" where
  "strings_Split [] = [[]]"
| "strings_Split (c # cs) =
     (if c = CHR 0x0A then [] # strings_Split cs
      else (case strings_Split cs of
              [] \<Rightarrow> [[c]]
            | l # ls \<Rightarrow> (c # l) # ls))"

text \<open>\<^verbatim>\<open>strings.Join(lines, "\n")\<close>.\<close>

fun strings_Join :: "string list \<Rightarrow> string" where
  "strings_Join [] = []"
| "strings_Join [l] = l"
| "strings_Join (l # ls) = l @ [CHR 0x0A] @ strings_Join ls"

section \<open>Tree construction\<close>

definition alloc :: "'a heap \<Rightarrow> 'a Node \<Rightarrow> ptr \<times> 'a heap" where
  "alloc h nd = (next_free h, \<lparr>cells = (cells h)(next_free h := nd), next_free = Suc (next_free h)\<rparr>)"

definition append_child :: "'a heap \<Rightarrow> ptr \<Rightarrow> ptr \<Rightarrow> 'a heap" where
  "append_child h n c =
     h\<lparr>cells := (cells h)(n := (cells h n)\<lparr>Nodes := Nodes (cells h n) @ [c]\<rparr>)\<rparr>"

definition New :: "'a heap \<Rightarrow> ptr \<times> 'a heap" where
  "New h = alloc h \<lparr>Root = None, Meta = VNil, Value = VStr ''.'', Nodes = []\<rparr>"

definition NewWithRoot :: "'a heap \<Rightarrow> 'a Value \<Rightarrow> ptr \<times> 'a heap" where
  "NewWithRoot h root = alloc h \<lparr>Root = None, Meta = VNil, Value = root, Nodes = []\<rparr>"

definition AddNode :: "'a heap \<Rightarrow> ptr \<Rightarrow> 'a Value \<Rightarrow> ptr \<times> 'a heap" where
  "AddNode h n v =
     (case alloc h \<lparr>Root = Some n, Meta = VNil, Value = v, Nodes = []\<rparr> of
        (c, h') \<Rightarrow> (n, append_child h' n c))"

definition AddMetaNode :: "'a heap \<Rightarrow> ptr \<Rightarrow> 'a Value \<Rightarrow> 'a Value \<Rightarrow> ptr \<times> 'a heap" where
  "AddMetaNode h n meta v =
     (case alloc h \<lparr>Root = Some n, Meta = meta, Value = v, Nodes = []\<rparr> of
        (c, h') \<Rightarrow> (n, append_child h' n c))"

definition AddBranch :: "'a heap \<Rightarrow> ptr \<Rightarrow> 'a Value \<Rightarrow> ptr \<times> 'a heap" where
  "AddBranch h n v =
     (case alloc h \<lparr>Root = Some n, Meta = VNil, Value = v, Nodes = []\<rparr> of
        (branch, h') \<Rightarrow> (branch, append_child h' n branch))"

definition AddMetaBranch :: "'a heap \<Rightarrow> ptr \<Rightarrow> 'a Value \<Rightarrow> 'a Value \<Rightarrow> ptr \<times> 'a heap" where
  "AddMetaBranch h n meta v =
     (case alloc h \<lparr>Root = Some n, Meta = meta, Value = v, Nodes = []\<rparr> of
        (branch, h') \<Rightarrow> (branch, append_child h' n branch))"

definition Branch :: "'a heap \<Rightarrow> ptr \<Rightarrow> ptr \<times> 'a heap" where
  "Branch h n = (n, h\<lparr>cells := (cells h)(n := (cells h n)\<lparr>Root := None\<rparr>)\<rparr>)"

definition SetValue :: "'a heap \<Rightarrow> ptr \<Rightarrow> 'a Value \<Rightarrow> 'a heap" where
  "SetValue h n v = h\<lparr>cells := (cells h)(n := (cells h n)\<lparr>Value := v\<rparr>)\<rparr>"

definition SetMetaValue :: "'a heap \<Rightarrow> ptr \<Rightarrow> 'a Value \<Rightarrow> 'a heap" where
  "SetMetaValue h n meta = h\<lparr>cells := (cells h)(n := (cells h n)\<lparr>Meta := meta\<rparr>)\<rparr>"

definition FindLastNode :: "'a heap \<Rightarrow> ptr \<Rightarrow> ptr option" where
  "FindLastNode h n =
     (let ns = Nodes (cells h n) in if length ns = 0 then None else Some (ns ! (length ns - 1)))"

section \<open>Search\<close>

text \<open>
  The body of \<^verbatim>\<open>FindByMeta\<close> is a loop over \<^verbatim>\<open>n.Nodes\<close> that calls the method on
  each child; \<open>FindByMeta_nodes\<close> is that loop on the remaining children, and the
  method call on a child is the loop on the child's own list. The recursion follows
  pointers of the store, so the result is an \<open>option\<close>: \<open>None\<close> means that the
  search does not return, \<open>Some None\<close> that it returns nil.
\<close>

partial_function (option) FindByMeta_nodes :: "'a heap \<Rightarrow> 'a Value \<Rightarrow> ptr list \<Rightarrow> ptr option option" where
  "FindByMeta_nodes h meta nodes =
     (case nodes of
        [] \<Rightarrow> Some None
      | node # rest \<Rightarrow>
          if Meta (cells h node) = meta then Some (Some node)
          else Option.bind (FindByMeta_nodes h meta (Nodes (cells h node)))
                 (\<lambda>v. if v \<noteq> None then Some v else FindByMeta_nodes h meta rest))"

declare FindByMeta_nodes.simps [code]

definition FindByMeta :: "'a heap \<Rightarrow> ptr \<Rightarrow> 'a Value \<Rightarrow> ptr option option" where
  "FindByMeta h n meta = FindByMeta_nodes h meta (Nodes (cells h n))"

fun FindByValue_nodes :: "'a heap \<Rightarrow> 'a Value \<Rightarrow> ptr list \<Rightarrow> ptr option option" where
  "FindByValue_nodes h v [] = Some None"
| "FindByValue_nodes h v (node # rest) =
     (if Value (cells h node) = v then Some (Some node)
      else Option.bind (FindByMeta h node v)
             (\<lambda>r. if r \<noteq> None then Some r else FindByValue_nodes h v rest))"

definition FindByValue :: "'a heap \<Rightarrow> ptr \<Rightarrow> 'a Value \<Rightarrow> ptr option option" where
  "FindByValue h n v = FindByValue_nodes h v (Nodes (cells h n))"

section \<open>Rendering\<close>

definition DefaultPrintMeta :: "('a \<Rightarrow> string) \<Rightarrow> 'a Value \<Rightarrow> string" where
  "DefaultPrintMeta fmtv m = ''['' @ Sprint fmtv m @ '']''"

definition DefaultPrintValue :: "('a \<Rightarrow> string) \<Rightarrow> 'a Value \<Rightarrow> string" where
  "DefaultPrintValue fmtv v = Sprint fmtv v"

definition printMeta :: "('a \<Rightarrow> string) \<Rightarrow> 'a PrintFunc \<Rightarrow> 'a Value \<Rightarrow> string" where
  "printMeta fmtv p m =
     (case MetaFunc p of Some f \<Rightarrow> f m | None \<Rightarrow> DefaultPrintMeta fmtv m) @ ''  ''"

definition printValue :: "('a \<Rightarrow> string) \<Rightarrow> 'a PrintFunc \<Rightarrow> 'a Value \<Rightarrow> string" where
  "printValue fmtv p v =
     (case ValueFunc p of Some f \<Rightarrow> f v | None \<Rightarrow> DefaultPrintValue fmtv v)"

definition printNode :: "('a \<Rightarrow> string) \<Rightarrow> 'a PrintFunc \<Rightarrow> 'a Node \<Rightarrow> string" where
  "printNode fmtv p n =
     (if Meta n \<noteq> VNil then printMeta fmtv p (Meta n) else []) @ printValue fmtv p (Value n)"

text \<open>\<^verbatim>\<open>isLast\<close> dereferences \<^verbatim>\<open>n.Root\<close> and compares pointers.\<close>

definition isLast :: "'a heap \<Rightarrow> ptr \<Rightarrow> panic + bool" where
  "isLast h n =
     (case Root (cells h n) of
        None \<Rightarrow> Inl NilDereference
      | Some r \<Rightarrow> Inr (FindLastNode h r = Some n))"

text \<open>
  The loop of \<^verbatim>\<open>padding\<close>: \<open>links\<close> is the slice made with \<open>level + 1\<close> empty strings
  at entry, and an index outside it panics.
\<close>

function padding_loop :: "globals \<Rightarrow> 'a heap \<Rightarrow> string list \<Rightarrow> int \<Rightarrow> ptr \<Rightarrow> panic + string list" where
  "padding_loop g h links level node =
     (case Root (cells h node) of
        None \<Rightarrow> Inr links
      | Some r \<Rightarrow>
          (case isLast h node of
             Inl e \<Rightarrow> Inl e
           | Inr lst \<Rightarrow>
               (case (if lst then strings_Repeat '' '' (IndentSize g + 1)
                      else map_sum id (\<lambda>s. EdgeTypeLink g @ s) (strings_Repeat '' '' (IndentSize g))) of
                  Inl e \<Rightarrow> Inl e
                | Inr s \<Rightarrow>
                    if level < 0 \<or> int (length links) \<le> level then Inl IndexOutOfRange
                    else padding_loop g h (links[nat level := s]) (level - 1) r)))"
  by pat_completeness auto
termination
  by (relation "measure (\<lambda>(g, h, links, level, node). nat (level + 1))") auto

declare padding_loop.simps [simp del]

definition padding :: "globals \<Rightarrow> 'a heap \<Rightarrow> int \<Rightarrow> ptr \<Rightarrow> panic + string" where
  "padding g h level node =
     (if level + 1 < 0 then Inl MakeSliceLenOutOfRange
      else map_sum id concat (padding_loop g h (replicate (nat (level + 1)) []) level node))"

definition renderValue ::
  "globals \<Rightarrow> ('a \<Rightarrow> string) \<Rightarrow> 'a heap \<Rightarrow> 'a PrintFunc \<Rightarrow> int \<Rightarrow> ptr \<Rightarrow> panic + 'a Value" where
  "renderValue g fmtv h p level node =
     (let lines = strings_Split (printValue fmtv p (Value (cells h node))) in
      if length lines < 2 then Inr (Value (cells h node))
      else (case padding g h level node of
              Inl e \<Rightarrow> Inl e
            | Inr pad \<Rightarrow> Inr (VStr (strings_Join (take 1 lines @ map (\<lambda>l. pad @ l) (drop 1 lines))))))"

fun isEnded :: "int list \<Rightarrow> int \<Rightarrow> bool" where
  "isEnded [] level = False"
| "isEnded (l # ls) level = (if l = level then True else isEnded ls level)"

text \<open>The indentation loop of \<^verbatim>\<open>printValues\<close>, from index \<open>i\<close> up to \<open>level\<close>.\<close>

function indent_loop :: "globals \<Rightarrow> int list \<Rightarrow> int \<Rightarrow> int \<Rightarrow> panic + string" where
  "indent_loop g levelsEnded i level =
     (if i < level then
        (case (if isEnded levelsEnded i then strings_Repeat '' '' (IndentSize g + 1)
               else map_sum id (\<lambda>s. EdgeTypeLink g @ s) (strings_Repeat '' '' (IndentSize g))) of
           Inl e \<Rightarrow> Inl e
         | Inr s \<Rightarrow> map_sum id (\<lambda>r. s @ r) (indent_loop g levelsEnded (i + 1) level))
      else Inr [])"
  by pat_completeness auto
termination
  by (relation "measure (\<lambda>(g, levelsEnded, i, level). nat (level - i))") auto

declare indent_loop.simps [simp del]

definition printValues ::
  "globals \<Rightarrow> ('a \<Rightarrow> string) \<Rightarrow> 'a heap \<Rightarrow> 'a PrintFunc \<Rightarrow> int \<Rightarrow> int list \<Rightarrow> string \<Rightarrow> ptr
     \<Rightarrow> panic + string" where
  "printValues g fmtv h p level levelsEnded edge node =
     (case indent_loop g levelsEnded 0 level of
        Inl e \<Rightarrow> Inl e
      | Inr ind \<Rightarrow>
          (case renderValue g fmtv h p level node of
             Inl e \<Rightarrow> Inl e
           | Inr val \<Rightarrow>
               Inr (ind @ edge @ '' ''
                    @ (if Meta (cells h node) \<noteq> VNil then printMeta fmtv p (Meta (cells h node)) else [])
                    @ Sprint fmtv val @ [CHR 0x0A])))"

text \<open>
  \<^verbatim>\<open>printNodes\<close>: the loop over \<open>nodes\<close>, where the current element is the last one
  exactly when nothing remains after it. The result is the text written, or the panic
  that aborted the rendering; \<open>None\<close> means that the recursion does not return.
  The slice \<^verbatim>\<open>levelsEnded\<close> is a list value: an \<^verbatim>\<open>append\<close> in a callee writes at or
  beyond the length of every caller's slice, so no caller sees it.
\<close>

partial_function (option) printNodes ::
  "globals \<Rightarrow> ('a \<Rightarrow> string) \<Rightarrow> 'a heap \<Rightarrow> 'a PrintFunc \<Rightarrow> int \<Rightarrow> int list \<Rightarrow> ptr list
     \<Rightarrow> (panic + string) option" where
  "printNodes g fmtv h p level levelsEnded nodes =
     (case nodes of
        [] \<Rightarrow> Some (Inr [])
      | node # rest \<Rightarrow>
          (let levelsEnded' = (if rest = [] then levelsEnded @ [level] else levelsEnded);
               edge = (if rest = [] then EdgeTypeEnd g else EdgeTypeMid g)
           in case printValues g fmtv h p level levelsEnded' edge node of
                Inl e \<Rightarrow> Some (Inl e)
              | Inr s1 \<Rightarrow>
                  Option.bind
                    (if length (Nodes (cells h node)) > 0
                     then printNodes g fmtv h p (level + 1) levelsEnded' (Nodes (cells h node))
                     else Some (Inr []))
                    (\<lambda>r2. case r2 of
                        Inl e \<Rightarrow> Some (Inl e)
                      | Inr s2 \<Rightarrow>
                          Option.bind (printNodes g fmtv h p level levelsEnded' rest)
                            (\<lambda>r3. case r3 of
                                Inl e \<Rightarrow> Some (Inl e)
                              | Inr s3 \<Rightarrow> Some (Inr (s1 @ s2 @ s3))))))"

declare printNodes.simps [code]

definition Bytes ::
  "globals \<Rightarrow> ('a \<Rightarrow> string) \<Rightarrow> 'a heap \<Rightarrow> ptr \<Rightarrow> 'a PrintFunc \<Rightarrow> (panic + string) option" where
  "Bytes g fmtv h n f =
     (let level = 0;
          levelsEnded = (if Root (cells h n) \<noteq> None \<and> length (Nodes (cells h n)) = 0 then [level] else []);
          first =
            (if Root (cells h n) = None then Inr (printNode fmtv f (cells h n) @ [CHR 0x0A])
             else printValues g fmtv h f 0 levelsEnded
                    (if length (Nodes (cells h n)) = 0 then EdgeTypeEnd g else EdgeTypeMid g) n)
      in case first of
           Inl e \<Rightarrow> Some (Inl e)
         | Inr s1 \<Rightarrow>
             if length (Nodes (cells h n)) > 0
             then Option.bind (printNodes g fmtv h f level levelsEnded (Nodes (cells h n)))
                    (\<lambda>r. case r of Inl e \<Rightarrow> Some (Inl e) | Inr s2 \<Rightarrow> Some (Inr (s1 @ s2)))
             else Some (Inr s1))"

definition Print ::
  "globals \<Rightarrow> ('a \<Rightarrow> string) \<Rightarrow> 'a heap \<Rightarrow> ptr \<Rightarrow> 'a PrintFunc \<Rightarrow> (panic + string) option" where
  "Print g fmtv h n f = Bytes g fmtv h n f"

definition String :: "globals \<Rightarrow> ('a \<Rightarrow> string) \<Rightarrow> 'a heap \<Rightarrow> ptr \<Rightarrow> (panic + string) option" where
  "String g fmtv h n = Bytes g fmtv h n \<lparr>MetaFunc = None, ValueFunc = None\<rparr>"

section \<open>Trees in the store\<close>

text \<open>
  The construction functions only ever append freshly allocated nodes, so the nodes
  reachable from a node form a finite tree. \<open>shape\<close> is such a tree of addresses, and
  \<open>shape_at h t\<close> says that the children lists of the store \<open>h\<close> unfold to \<open>t\<close>.
\<close>

datatype shape = Sh (addr: ptr) (kids: "shape list")

fun shape_at :: "'a heap \<Rightarrow> shape \<Rightarrow> bool" where
  "shape_at h (Sh p ts) = (Nodes (cells h p) = map addr ts \<and> list_all (shape_at h) ts)"

text \<open>
  \<open>links_ok h t\<close>: below the top of \<open>t\<close>, every node's \<^verbatim>\<open>Root\<close> field is either the node
  in whose children list it stands, as the construction functions set it, or nil, after
  \<^verbatim>\<open>Branch\<close> has cleared it; and no children list holds the same pointer twice.
\<close>

fun links_ok :: "'a heap \<Rightarrow> shape \<Rightarrow> bool" where
  "links_ok h (Sh p ts) =
     (distinct (map addr ts)
      \<and> list_all (\<lambda>t. (Root (cells h (addr t)) = Some p \<or> Root (cells h (addr t)) = None)
                       \<and> links_ok h t) ts)"

text \<open>
  Walking from a node up to the nearest node whose \<^verbatim>\<open>Root\<close> is nil (the root of the tree,
  or a node detached by \<^verbatim>\<open>Branch\<close>): \<open>up_chain h n fs\<close> holds when \<open>fs\<close> lists, for the node
  itself and then for each node passed on the way, whether it is the last child of its
  parent.
\<close>

fun up_chain :: "'a heap \<Rightarrow> ptr \<Rightarrow> bool list \<Rightarrow> bool" where
  "up_chain h n [] = (Root (cells h n) = None)"
| "up_chain h n (f # fs) =
     (case Root (cells h n) of
        None \<Rightarrow> False
      | Some r \<Rightarrow> (FindLastNode h r = Some n) = f \<and> up_chain h r fs)"

text \<open>The descendants of the top node, children first, each followed by its own descendants.\<close>

fun descendants :: "shape \<Rightarrow> ptr list" where
  "descendants (Sh p ts) = concat (map (\<lambda>t. addr t # descendants t) ts)"

text \<open>The same order, each descendant tagged with whether it is a direct child of the top.\<close>

definition tagged_descendants :: "shape \<Rightarrow> (ptr \<times> bool) list" where
  "tagged_descendants t =
     concat (map (\<lambda>c. (addr c, True) # map (\<lambda>q. (q, False)) (descendants c)) (kids t))"

section \<open>The layout the specification describes\<close>

text \<open>
  One padding segment per level: blank when the node of that level is the last child of
  its parent, the vertical link followed by blanks otherwise.
\<close>

definition expected_segment :: "globals \<Rightarrow> bool \<Rightarrow> string" where
  "expected_segment g ended =
     (if ended then replicate (nat (IndentSize g + 1)) (CHR '' '')
      else EdgeTypeLink g @ replicate (nat (IndentSize g)) (CHR '' ''))"

text \<open>The padding for a list of last-child flags, topmost level first.\<close>

definition expected_padding :: "globals \<Rightarrow> bool list \<Rightarrow> string" where
  "expected_padding g flags = concat (map (expected_segment g) flags)"

text \<open>
  The value text of a node below the root. A rendering with several lines has every
  line after the first prefixed with the padding. A rendering with a single line is
  written as \<open>printValues\<close> writes it, which is the plain stringification of the value.
\<close>

definition expected_value_text ::
  "('a \<Rightarrow> string) \<Rightarrow> 'a PrintFunc \<Rightarrow> string \<Rightarrow> 'a Value \<Rightarrow> string" where
  "expected_value_text fmtv p pad v =
     (case strings_Split (printValue fmtv p v) of
        l1 # l2 # ls \<Rightarrow> l1 @ concat (map (\<lambda>l. [CHR 0x0A] @ pad @ l) (l2 # ls))
      | _ \<Rightarrow> Sprint fmtv v)"

text \<open>
  The line of a node below the root. \<open>flags\<close> lists, from the level below the root down
  to the level above the node, whether the node of that level is the last child of its
  parent: it gives the indentation before the connector. \<open>walked\<close> lists the same for the
  levels met when walking from the node up to the nearest node without parent, the
  node's own level included: it gives the padding of the continuation lines.
\<close>

definition expected_line ::
  "globals \<Rightarrow> ('a \<Rightarrow> string) \<Rightarrow> 'a PrintFunc \<Rightarrow> bool list \<Rightarrow> bool \<Rightarrow> bool list \<Rightarrow> 'a Node
     \<Rightarrow> string" where
  "expected_line g fmtv p flags lst walked nd =
     expected_padding g flags
     @ (if lst then EdgeTypeEnd g else EdgeTypeMid g) @ '' ''
     @ (if Meta nd \<noteq> VNil then printMeta fmtv p (Meta nd) else [])
     @ expected_value_text fmtv p (expected_padding g walked) (Value nd)
     @ [CHR 0x0A]"

text \<open>
  The lines of a list of sibling subtrees. A node whose \<^verbatim>\<open>Root\<close> is nil starts the walk
  afresh: nothing is walked for it, and its descendants walk up to it only.
\<close>

fun expected_nodes ::
  "globals \<Rightarrow> ('a \<Rightarrow> string) \<Rightarrow> 'a heap \<Rightarrow> 'a PrintFunc \<Rightarrow> bool list \<Rightarrow> bool list \<Rightarrow> shape list
     \<Rightarrow> string" where
  "expected_nodes g fmtv h p flags walked [] = []"
| "expected_nodes g fmtv h p flags walked (Sh n cs # ts) =
     expected_line g fmtv p flags (ts = [])
       (if Root (cells h n) = None then [] else walked @ [ts = []]) (cells h n)
     @ expected_nodes g fmtv h p (flags @ [ts = []])
         (if Root (cells h n) = None then [] else walked @ [ts = []]) cs
     @ expected_nodes g fmtv h p flags walked ts"

definition expected_render ::
  "globals \<Rightarrow> ('a \<Rightarrow> string) \<Rightarrow> 'a heap \<Rightarrow> 'a PrintFunc \<Rightarrow> shape \<Rightarrow> string" where
  "expected_render g fmtv h p t =
     printNode fmtv p (cells h (addr t)) @ [CHR 0x0A] @ expected_nodes g fmtv h p [] [] (kids t)"

text \<open>The lines of \<open>N\<close> leaves without meta directly under a root.\<close>

fun leaf_lines :: "globals \<Rightarrow> ('a \<Rightarrow> string) \<Rightarrow> 'a Value list \<Rightarrow> string" where
  "leaf_lines g fmtv [] = []"
| "leaf_lines g fmtv (v # vs) =
     (if vs = [] then EdgeTypeEnd g else EdgeTypeMid g) @ '' '' @ Sprint fmtv v @ [CHR 0x0A]
     @ leaf_lines g fmtv vs"

text \<open>Appending leaves one after the other to the same node.\<close>

fun AddNodes :: "'a heap \<Rightarrow> ptr \<Rightarrow> 'a Value list \<Rightarrow> 'a heap" where
  "AddNodes h n [] = h"
| "AddNodes h n (v # vs) = AddNodes (snd (AddNode h n v)) n vs"

section \<open>Example trees\<close>

definition empty_heap :: "'a heap" where
  "empty_heap =
     \<lparr>cells = (\<lambda>_. \<lparr>Root = None, Meta = VNil, Value = VNil, Nodes = []\<rparr>), next_free = 0\<rparr>"

definition no_format :: "unit PrintFunc" where
  "no_format = \<lparr>MetaFunc = None, ValueFunc = None\<rparr>"

text \<open>The store after \<^verbatim>\<open>New()\<close>: a single root \<open>.\<close> at address 0.\<close>

definition fresh_root :: "unit heap" where
  "fresh_root = snd (New empty_heap)"

text \<open>Root \<open>.\<close> with the leaves \<open>a\<close> and \<open>b\<close>: addresses 0, 1 and 2.\<close>

definition two_leaves :: "unit heap" where
  "two_leaves =
     (case New empty_heap of (r, h0) \<Rightarrow>
      case AddNode h0 r (VStr ''a'') of (_, h1) \<Rightarrow>
      case AddNode h1 r (VStr ''b'') of (_, h2) \<Rightarrow> h2)"

text \<open>
  Root \<open>.\<close> (0) with the branch \<open>a\<close> (1) and the leaf \<open>b\<close> (4); \<open>a\<close> holds a leaf with
  a value of three lines (2) and the leaf \<open>c\<close> (3).
\<close>

definition three_lines :: string where
  "three_lines = ''l1'' @ [CHR 0x0A] @ ''l2'' @ [CHR 0x0A] @ ''l3''"

definition nested :: "unit heap" where
  "nested =
     (case New empty_heap of (r, h0) \<Rightarrow>
      case AddBranch h0 r (VStr ''a'') of (a, h1) \<Rightarrow>
      case AddNode h1 a (VStr three_lines) of (_, h2) \<Rightarrow>
      case AddNode h2 a (VStr ''c'') of (_, h3) \<Rightarrow>
      case AddNode h3 r (VStr ''b'') of (_, h4) \<Rightarrow> h4)"

definition nested_shape :: shape where
  "nested_shape = Sh 0 [Sh 1 [Sh 2 [], Sh 3 []], Sh 4 []]"

text \<open>
  Root \<open>.\<close> (0), branch \<open>a\<close> (1), below it branch \<open>b\<close> (2), below it a leaf with meta
  \<open>m\<close> and value \<open>c\<close> (3).
\<close>

definition with_meta :: "unit heap" where
  "with_meta =
     (case New empty_heap of (r, h0) \<Rightarrow>
      case AddBranch h0 r (VStr ''a'') of (a, h1) \<Rightarrow>
      case AddBranch h1 a (VStr ''b'') of (b, h2) \<Rightarrow>
      case AddMetaNode h2 b (VStr ''m'') (VStr ''c'') of (_, h3) \<Rightarrow> h3)"

definition with_meta_shape :: shape where
  "with_meta_shape = Sh 0 [Sh 1 [Sh 2 [Sh 3 []]]]"

text \<open>
  Root \<open>.\<close> (0) with the branch \<open>a\<close> (1) holding a leaf with a value of two lines (2);
  then \<^verbatim>\<open>Branch\<close> is called on \<open>a\<close>, which stays in the root's children list.
\<close>

definition two_lines :: string where
  "two_lines = ''l1'' @ [CHR 0x0A] @ ''l2''"

definition detached :: "unit heap" where
  "detached =
     (case New empty_heap of (r, h0) \<Rightarrow>
      case AddBranch h0 r (VStr ''a'') of (a, h1) \<Rightarrow>
      case AddNode h1 a (VStr two_lines) of (_, h2) \<Rightarrow>
      case Branch h2 a of (_, h3) \<Rightarrow> h3)"

definition detached_shape :: shape where
  "detached_shape = Sh 0 [Sh 1 [Sh 2 []]]"

text \<open>A single parentless node with meta \<open>m\<close> and value \<open>v\<close>, at address 0.\<close>

definition lonely_meta :: "unit heap" where
  "lonely_meta =
     (case NewWithRoot empty_heap (VStr ''v'') of (r, h0) \<Rightarrow> SetMetaValue h0 r (VStr ''m''))"

text \<open>A value formatter that writes \<open>X\<close> for every value.\<close>

definition format_X :: "unit PrintFunc" where
  "format_X = \<lparr>MetaFunc = None, ValueFunc = Some (\<lambda>_. ''X'')\<rparr>"

text \<open>
  The text of \<open>two_leaves\<close> rendered from its root with the initial settings:
  \<^verbatim>\<open>.\<close>, then \<^verbatim>\<open>a\<close> behind the mid-branch glyph, then \<^verbatim>\<open>b\<close> behind the last-branch glyph.
\<close>

definition two_leaves_rendering :: string where
  "two_leaves_rendering =
     ''.'' @ [CHR 0x0A]
     @ EdgeTypeMid initial_globals @ '' a'' @ [CHR 0x0A]
     @ EdgeTypeEnd initial_globals @ '' b'' @ [CHR 0x0A]"

text \<open>
  The text of \<open>nested\<close> rendered from its root with the initial settings. The second
  and third line of the value of three lines start with two link segments, one for the
  branch \<open>a\<close> and one for the leaf itself, neither of which is a last child.
\<close>

definition nested_rendering :: string where
  "nested_rendering =
     ''.'' @ [CHR 0x0A]
     @ EdgeTypeMid initial_globals @ '' a'' @ [CHR 0x0A]
     @ EdgeTypeLink initial_globals @ ''   '' @ EdgeTypeMid initial_globals @ '' l1'' @ [CHR 0x0A]
     @ EdgeTypeLink initial_globals @ ''   '' @ EdgeTypeLink initial_globals @ ''   '' @ ''l2'' @ [CHR 0x0A]
     @ EdgeTypeLink initial_globals @ ''   '' @ EdgeTypeLink initial_globals @ ''   '' @ ''l3'' @ [CHR 0x0A]
     @ EdgeTypeLink initial_globals @ ''   '' @ EdgeTypeEnd initial_globals @ '' c'' @ [CHR 0x0A]
     @ EdgeTypeEnd initial_globals @ '' b'' @ [CHR 0x0A]"

text \<open>
  The text of \<open>detached\<close> rendered from its root with the initial settings: the second
  line of the value starts with one blank segment, for the leaf itself; nothing stands
  for the level of \<open>a\<close>. With a segment for every level it would start with two.
\<close>

definition detached_rendering :: string where
  "detached_rendering =
     ''.'' @ [CHR 0x0A]
     @ EdgeTypeEnd initial_globals @ '' a'' @ [CHR 0x0A]
     @ ''    '' @ EdgeTypeEnd initial_globals @ '' l1'' @ [CHR 0x0A]
     @ ''    '' @ ''l2'' @ [CHR 0x0A]"

definition detached_rendering_every_level :: string where
  "detached_rendering_every_level =
     ''.'' @ [CHR 0x0A]
     @ EdgeTypeEnd initial_globals @ '' a'' @ [CHR 0x0A]
     @ ''    '' @ EdgeTypeEnd initial_globals @ '' l1'' @ [CHR 0x0A]
     @ ''    '' @ ''    '' @ ''l2'' @ [CHR 0x0A]"

text \<open>
  The text of \<open>with_meta\<close> rendered from the branch \<open>a\<close>, which has a parent: \<open>a\<close> behind
  the mid-branch glyph, then its child \<open>b\<close> at the same level, then the leaf below \<open>b\<close>.
\<close>

definition with_meta_branch_rendering :: string where
  "with_meta_branch_rendering =
     EdgeTypeMid initial_globals @ '' a'' @ [CHR 0x0A]
     @ EdgeTypeEnd initial_globals @ '' b'' @ [CHR 0x0A]
     @ ''    '' @ EdgeTypeEnd initial_globals @ '' [m]  c'' @ [CHR 0x0A]"

section \<open>Unfolding the recursive functions\<close>

lemma printNodes_Nil: "printNodes g fmtv h p level le [] = Some (Inr [])"
  by (subst printNodes.simps) simp

lemma printNodes_Cons:
  "printNodes g fmtv h p level le (node # rest) =
     (let levelsEnded' = (if rest = [] then le @ [level] else le);
          edge = (if rest = [] then EdgeTypeEnd g else EdgeTypeMid g)
      in case printValues g fmtv h p level levelsEnded' edge node of
           Inl e \<Rightarrow> Some (Inl e)
         | Inr s1 \<Rightarrow>
             Option.bind
               (if length (Nodes (cells h node)) > 0
                then printNodes g fmtv h p (level + 1) levelsEnded' (Nodes (cells h node))
                else Some (Inr []))
               (\<lambda>r2. case r2 of
                   Inl e \<Rightarrow> Some (Inl e)
                 | Inr s2 \<Rightarrow>
                     Option.bind (printNodes g fmtv h p level levelsEnded' rest)
                       (\<lambda>r3. case r3 of
                           Inl e \<Rightarrow> Some (Inl e)
                         | Inr s3 \<Rightarrow> Some (Inr (s1 @ s2 @ s3)))))"
  by (subst printNodes.simps) simp

lemma FindByMeta_nodes_Nil: "FindByMeta_nodes h meta [] = Some None"
  by (subst FindByMeta_nodes.simps) simp

lemma FindByMeta_nodes_Cons:
  "FindByMeta_nodes h meta (node # rest) =
     (if Meta (cells h node) = meta then Some (Some node)
      else Option.bind (FindByMeta_nodes h meta (Nodes (cells h node)))
             (\<lambda>v. if v \<noteq> None then Some v else FindByMeta_nodes h meta rest))"
  by (subst FindByMeta_nodes.simps) simp

lemma indent_loop_0: "indent_loop g le 0 0 = Inr []"
  by (subst indent_loop.simps) simp

section \<open>The example trees, cell by cell\<close>

lemmas build_defs =
  New_def NewWithRoot_def AddNode_def AddBranch_def AddMetaNode_def AddMetaBranch_def
  SetMetaValue_def Branch_def alloc_def append_child_def empty_heap_def

lemmas render_defs =
  indent_loop_0 printValues_def renderValue_def printValue_def printMeta_def printNode_def
  DefaultPrintValue_def DefaultPrintMeta_def padding_def padding_loop.simps isLast_def
  FindLastNode_def strings_Repeat_def

lemma fresh_root_cells:
  "cells fresh_root 0 = \<lparr>Root = None, Meta = VNil, Value = VStr ''.'', Nodes = []\<rparr>"
  "next_free fresh_root = 1"
  by (simp_all add: fresh_root_def build_defs)

lemma two_leaves_cells:
  "cells two_leaves 0 = \<lparr>Root = None, Meta = VNil, Value = VStr ''.'', Nodes = [1, 2]\<rparr>"
  "cells two_leaves (Suc 0) = \<lparr>Root = Some 0, Meta = VNil, Value = VStr ''a'', Nodes = []\<rparr>"
  "cells two_leaves 2 = \<lparr>Root = Some 0, Meta = VNil, Value = VStr ''b'', Nodes = []\<rparr>"
  by (simp_all add: two_leaves_def build_defs)

lemma nested_cells:
  "cells nested 0 = \<lparr>Root = None, Meta = VNil, Value = VStr ''.'', Nodes = [1, 4]\<rparr>"
  "cells nested (Suc 0) = \<lparr>Root = Some 0, Meta = VNil, Value = VStr ''a'', Nodes = [2, 3]\<rparr>"
  "cells nested 2 = \<lparr>Root = Some 1, Meta = VNil, Value = VStr three_lines, Nodes = []\<rparr>"
  "cells nested 3 = \<lparr>Root = Some 1, Meta = VNil, Value = VStr ''c'', Nodes = []\<rparr>"
  "cells nested 4 = \<lparr>Root = Some 0, Meta = VNil, Value = VStr ''b'', Nodes = []\<rparr>"
  by (simp_all add: nested_def build_defs)

lemma with_meta_cells:
  "cells with_meta 0 = \<lparr>Root = None, Meta = VNil, Value = VStr ''.'', Nodes = [1]\<rparr>"
  "cells with_meta (Suc 0) = \<lparr>Root = Some 0, Meta = VNil, Value = VStr ''a'', Nodes = [2]\<rparr>"
  "cells with_meta 2 = \<lparr>Root = Some 1, Meta = VNil, Value = VStr ''b'', Nodes = [3]\<rparr>"
  "cells with_meta 3 = \<lparr>Root = Some 2, Meta = VStr ''m'', Value = VStr ''c'', Nodes = []\<rparr>"
  by (simp_all add: with_meta_def build_defs)

lemma detached_cells:
  "cells detached 0 = \<lparr>Root = None, Meta = VNil, Value = VStr ''.'', Nodes = [1]\<rparr>"
  "cells detached (Suc 0) = \<lparr>Root = None, Meta = VNil, Value = VStr ''a'', Nodes = [2]\<rparr>"
  "cells detached 2 = \<lparr>Root = Some 1, Meta = VNil, Value = VStr two_lines, Nodes = []\<rparr>"
  by (simp_all add: detached_def build_defs)

lemma lonely_meta_cells:
  "cells lonely_meta 0 = \<lparr>Root = None, Meta = VStr ''m'', Value = VStr ''v'', Nodes = []\<rparr>"
  by (simp add: lonely_meta_def build_defs)

section \<open>Branch\<close>

text \<open>
  C8. \<^verbatim>\<open>Branch\<close> returns the node itself and clears its \<^verbatim>\<open>Root\<close> field only: the node's
  value, meta and children are unchanged, every children list of the store (that of the
  former parent included) is unchanged, every other node is unchanged, and nothing is
  allocated. On a node whose \<^verbatim>\<open>Root\<close> is already nil the store does not change, and
  applying \<^verbatim>\<open>Branch\<close> twice is the same as applying it once.
\<close>

theorem Branch_clears_parent_only:
  "fst (Branch h n) = n
   \<and> Root (cells (snd (Branch h n)) n) = None
   \<and> Meta (cells (snd (Branch h n)) n) = Meta (cells h n)
   \<and> Value (cells (snd (Branch h n)) n) = Value (cells h n)
   \<and> (\<forall>q. Nodes (cells (snd (Branch h n)) q) = Nodes (cells h q))
   \<and> (\<forall>q. q \<noteq> n \<longrightarrow> cells (snd (Branch h n)) q = cells h q)
   \<and> next_free (snd (Branch h n)) = next_free h
   \<and> (Root (cells h n) = None \<longrightarrow> snd (Branch h n) = h)
   \<and> Branch (snd (Branch h n)) n = Branch h n"
  by (auto simp: Branch_def fun_upd_idem)

text \<open>
  In the example \<open>two_leaves\<close>, detaching the leaf \<open>a\<close> (address 1) leaves it in the
  root's children list and leaves the root as it was; detaching the root, which has no
  parent, changes nothing.
\<close>

theorem Branch_clears_parent_only_witness:
  "Root (cells two_leaves 1) = Some 0
   \<and> Root (cells (snd (Branch two_leaves 1)) 1) = None
   \<and> Nodes (cells (snd (Branch two_leaves 1)) 0) = [1, 2]
   \<and> (0::nat) \<noteq> 1 \<and> cells (snd (Branch two_leaves 1)) 0 = cells two_leaves 0
   \<and> Root (cells two_leaves 0) = None \<and> snd (Branch two_leaves 0) = two_leaves"
  using Branch_clears_parent_only[of two_leaves 1] Branch_clears_parent_only[of two_leaves 0]
  by (simp add: two_leaves_cells)

section \<open>Properties of the search\<close>

lemma find_append_split:
  "find P (xs @ ys) = (case find P xs of None \<Rightarrow> find P ys | Some x \<Rightarrow> Some x)"
  by (induction xs) auto

lemma find_map_untagged:
  "find (\<lambda>(q, direct). if direct then V q else M q) (map (\<lambda>q. (q, False)) xs)
     = map_option (\<lambda>q. (q, False)) (find M xs)"
  by (induction xs) auto

lemma shape_at_kids: "shape_at h t \<Longrightarrow> Nodes (cells h (addr t)) = map addr (kids t)"
  by (cases t) simp

lemma shape_at_kids_all: "shape_at h t \<Longrightarrow> list_all (shape_at h) (kids t)"
  by (cases t) simp

lemma with_meta_shape_at: "shape_at with_meta with_meta_shape"
  by (simp add: with_meta_shape_def with_meta_cells)

lemma FindByMeta_nodes_list:
  assumes "\<And>t. t \<in> set ts \<Longrightarrow> shape_at h t \<Longrightarrow>
             FindByMeta_nodes h m (map addr (kids t))
               = Some (find (\<lambda>q. Meta (cells h q) = m) (descendants t))"
    and "list_all (shape_at h) ts"
  shows "FindByMeta_nodes h m (map addr ts)
           = Some (find (\<lambda>q. Meta (cells h q) = m) (concat (map (\<lambda>c. addr c # descendants c) ts)))"
  using assms
proof (induction ts)
  case Nil
  show ?case by (simp add: FindByMeta_nodes_Nil)
next
  case (Cons t ts)
  have t: "shape_at h t" and ts: "list_all (shape_at h) ts"
    using Cons.prems(2) by simp_all
  have sub: "FindByMeta_nodes h m (Nodes (cells h (addr t)))
               = Some (find (\<lambda>q. Meta (cells h q) = m) (descendants t))"
    using Cons.prems(1)[of t] t by (simp add: shape_at_kids)
  have rest: "FindByMeta_nodes h m (map addr ts)
           = Some (find (\<lambda>q. Meta (cells h q) = m) (concat (map (\<lambda>c. addr c # descendants c) ts)))"
    using Cons.IH Cons.prems(1) ts by simp
  show ?case
    by (simp add: FindByMeta_nodes_Cons sub rest find_append_split split: option.splits)
qed

lemma FindByMeta_nodes_shape:
  "shape_at h t \<Longrightarrow>
     FindByMeta_nodes h m (map addr (kids t)) = Some (find (\<lambda>q. Meta (cells h q) = m) (descendants t))"
proof (induction t)
  case (Sh p ts)
  have "list_all (shape_at h) ts"
    using Sh.prems by simp
  moreover have "\<And>t. t \<in> set ts \<Longrightarrow> shape_at h t \<Longrightarrow>
             FindByMeta_nodes h m (map addr (kids t))
               = Some (find (\<lambda>q. Meta (cells h q) = m) (descendants t))"
    using Sh.IH by simp
  ultimately show ?case
    using FindByMeta_nodes_list[of ts h m] by simp
qed

lemma FindByMeta_descendants:
  "shape_at h t \<Longrightarrow>
     FindByMeta h (addr t) m = Some (find (\<lambda>q. Meta (cells h q) = m) (descendants t))"
  using FindByMeta_nodes_shape[of h t m] by (simp add: FindByMeta_def shape_at_kids)

lemma FindByValue_nodes_list:
  "list_all (shape_at h) ts \<Longrightarrow>
   FindByValue_nodes h v (map addr ts)
     = Some (map_option fst
         (find (\<lambda>(q, direct). if direct then Value (cells h q) = v else Meta (cells h q) = v)
            (concat (map (\<lambda>c. (addr c, True) # map (\<lambda>q. (q, False)) (descendants c)) ts))))"
proof (induction ts)
  case Nil
  show ?case by simp
next
  case (Cons t ts)
  have t: "shape_at h t" and ts: "list_all (shape_at h) ts"
    using Cons.prems by simp_all
  show ?case
    using Cons.IH[OF ts]
    by (simp add: FindByMeta_descendants[OF t] find_append_split find_map_untagged
          split: option.splits)
qed

text \<open>
  C7. On a tree of the store, \<^verbatim>\<open>FindByMeta\<close> returns, and its result is the first node,
  in the order "each child, then that child's descendants, then the next child", whose
  meta equals the target: the node at position \<open>i\<close> of that order when it matches and
  no earlier one does, and nil when no descendant matches.
\<close>

theorem FindByMeta_first_match:
  assumes "shape_at h t"
  shows "FindByMeta h (addr t) m = Some (find (\<lambda>q. Meta (cells h q) = m) (descendants t))
         \<and> (\<forall>i < length (descendants t).
               Meta (cells h (descendants t ! i)) = m
               \<and> (\<forall>j < i. Meta (cells h (descendants t ! j)) \<noteq> m)
               \<longrightarrow> FindByMeta h (addr t) m = Some (Some (descendants t ! i)))
         \<and> ((\<forall>q \<in> set (descendants t). Meta (cells h q) \<noteq> m)
               \<longrightarrow> FindByMeta h (addr t) m = Some None)"
proof (intro conjI allI impI)
  show eq: "FindByMeta h (addr t) m = Some (find (\<lambda>q. Meta (cells h q) = m) (descendants t))"
    by (rule FindByMeta_descendants[OF assms])
  show "FindByMeta h (addr t) m = Some (Some (descendants t ! i))"
    if "i < length (descendants t)"
      and "Meta (cells h (descendants t ! i)) = m
           \<and> (\<forall>j < i. Meta (cells h (descendants t ! j)) \<noteq> m)" for i
  proof -
    have "find (\<lambda>q. Meta (cells h q) = m) (descendants t) = Some (descendants t ! i)"
      using that by (subst find_Some_iff) blast
    then show ?thesis using eq by simp
  qed
  show "FindByMeta h (addr t) m = Some None"
    if "\<forall>q \<in> set (descendants t). Meta (cells h q) \<noteq> m"
  proof -
    have "find (\<lambda>q. Meta (cells h q) = m) (descendants t) = None"
      using that by (simp add: find_None_iff)
    then show ?thesis using eq by simp
  qed
qed

text \<open>
  In the example \<open>with_meta\<close> the only node with meta \<open>m\<close> is at depth 3 (address 3) and is
  the one returned; no node has meta \<open>zz\<close>, and the search for it returns nil.
\<close>

theorem FindByMeta_first_match_witness:
  "shape_at with_meta with_meta_shape
   \<and> descendants with_meta_shape = [1, 2, 3]
   \<and> FindByMeta with_meta 0 (VStr ''m'') = Some (Some 3)
   \<and> FindByMeta with_meta 0 (VStr ''zz'') = Some None"
  using FindByMeta_first_match[OF with_meta_shape_at, of "VStr ''m''"]
        FindByMeta_first_match[OF with_meta_shape_at, of "VStr ''zz''"]
        with_meta_shape_at
  by (simp add: with_meta_shape_def with_meta_cells)

text \<open>
  C6. On a tree of the store, \<^verbatim>\<open>FindByValue\<close> returns, and its result is the first node
  of the same order that passes this test: a direct child passes when its value equals
  the target, a deeper descendant passes when its meta equals the target. The values of
  deeper descendants and the metas of direct children are never compared.
\<close>

theorem FindByValue_descends_by_meta:
  assumes "shape_at h t"
  shows "FindByValue h (addr t) v
           = Some (map_option fst
               (find (\<lambda>(q, direct). if direct then Value (cells h q) = v else Meta (cells h q) = v)
                  (tagged_descendants t)))"
  using FindByValue_nodes_list[of h "kids t" v] assms
  by (simp add: FindByValue_def tagged_descendants_def shape_at_kids shape_at_kids_all)

text \<open>
  In the example \<open>with_meta\<close> the node at depth 3 has meta \<open>m\<close> and value \<open>c\<close>: searching
  for the value \<open>m\<close> returns it, searching for the value \<open>c\<close> returns nil, and searching
  for \<open>a\<close>, the value of the direct child, returns that child.
\<close>

theorem FindByValue_descends_by_meta_witness:
  "shape_at with_meta with_meta_shape
   \<and> tagged_descendants with_meta_shape = [(1, True), (2, False), (3, False)]
   \<and> Value (cells with_meta 3) = VStr ''c'' \<and> Meta (cells with_meta 3) = VStr ''m''
   \<and> FindByValue with_meta 0 (VStr ''m'') = Some (Some 3)
   \<and> FindByValue with_meta 0 (VStr ''c'') = Some None
   \<and> FindByValue with_meta 0 (VStr ''a'') = Some (Some 1)"
  using FindByValue_descends_by_meta[OF with_meta_shape_at, of "VStr ''m''"]
        FindByValue_descends_by_meta[OF with_meta_shape_at, of "VStr ''c''"]
        FindByValue_descends_by_meta[OF with_meta_shape_at, of "VStr ''a''"]
        with_meta_shape_at
  by (simp add: with_meta_shape_def with_meta_cells tagged_descendants_def)

text \<open>
  C10. A node created by \<^verbatim>\<open>AddNode\<close> or \<^verbatim>\<open>AddBranch\<close> has the nil meta. On a tree of the
  store with a descendant whose meta is nil, \<^verbatim>\<open>FindByMeta\<close> with the nil target does not
  return nil: it returns the first descendant with nil meta of the children-first order.
\<close>

theorem FindByMeta_nil_finds_meta_less:
  assumes "shape_at h t" "q \<in> set (descendants t)" "Meta (cells h q) = VNil"
  shows "Meta (cells (snd (AddNode h0 n v)) (next_free h0)) = VNil
         \<and> Meta (cells (snd (AddBranch h0 n v)) (next_free h0)) = VNil
         \<and> (\<exists>i < length (descendants t).
               FindByMeta h (addr t) VNil = Some (Some (descendants t ! i))
               \<and> Meta (cells h (descendants t ! i)) = VNil
               \<and> (\<forall>j < i. Meta (cells h (descendants t ! j)) \<noteq> VNil))"
proof (intro conjI)
  show "Meta (cells (snd (AddNode h0 n v)) (next_free h0)) = VNil"
    by (simp add: AddNode_def alloc_def append_child_def)
  show "Meta (cells (snd (AddBranch h0 n v)) (next_free h0)) = VNil"
    by (simp add: AddBranch_def alloc_def append_child_def)
  have "find (\<lambda>q. Meta (cells h q) = VNil) (descendants t) \<noteq> None"
    using assms(2,3) by (auto simp: find_None_iff)
  then obtain r where r: "find (\<lambda>q. Meta (cells h q) = VNil) (descendants t) = Some r"
    by auto
  then obtain i where "i < length (descendants t)" "Meta (cells h (descendants t ! i)) = VNil"
    "r = descendants t ! i" "\<forall>j < i. Meta (cells h (descendants t ! j)) \<noteq> VNil"
    unfolding find_Some_iff by blast
  then show "\<exists>i < length (descendants t).
               FindByMeta h (addr t) VNil = Some (Some (descendants t ! i))
               \<and> Meta (cells h (descendants t ! i)) = VNil
               \<and> (\<forall>j < i. Meta (cells h (descendants t ! j)) \<noteq> VNil)"
    using FindByMeta_descendants[OF assms(1), of VNil] r by auto
qed

text \<open>
  In the example \<open>with_meta\<close> the branch \<open>a\<close> (address 1) was added without meta, and the
  search for the nil meta from the root returns it.
\<close>

theorem FindByMeta_nil_finds_meta_less_witness:
  "shape_at with_meta with_meta_shape
   \<and> 2 \<in> set (descendants with_meta_shape)
   \<and> Meta (cells with_meta 2) = VNil
   \<and> FindByMeta with_meta 0 VNil = Some (Some 1)"
proof -
  have a: "(2::nat) \<in> set (descendants with_meta_shape)"
    by (simp add: with_meta_shape_def)
  have b: "Meta (cells with_meta 2) = VNil"
    by (simp add: with_meta_cells)
  from FindByMeta_nil_finds_meta_less[OF with_meta_shape_at a b]
  obtain i where i: "i < length (descendants with_meta_shape)"
    "FindByMeta with_meta (addr with_meta_shape) VNil = Some (Some (descendants with_meta_shape ! i))"
    "\<forall>j < i. Meta (cells with_meta (descendants with_meta_shape ! j)) \<noteq> VNil"
    by blast
  have "i = 0"
  proof (rule ccontr)
    assume "i \<noteq> 0"
    then have "0 < i" by simp
    with i(3) have "Meta (cells with_meta (descendants with_meta_shape ! 0)) \<noteq> VNil" by blast
    then show False by (simp add: with_meta_shape_def with_meta_cells)
  qed
  with i(2) have "FindByMeta with_meta 0 VNil = Some (Some 1)"
    by (simp add: with_meta_shape_def)
  then show ?thesis using with_meta_shape_at a b by simp
qed

section \<open>Rendering: indentation and padding\<close>

lemma concat_replicate_single: "concat (replicate n [c]) = replicate n c"
  by (induction n) auto

lemma concat_replicate_empty: "concat (replicate n []) = []"
  by (induction n) auto

lemma strings_Repeat_blank:
  "0 \<le> n \<Longrightarrow> strings_Repeat '' '' n = Inr (replicate (nat n) (CHR '' ''))"
  by (simp add: strings_Repeat_def concat_replicate_single)

lemma segment_ok:
  "0 \<le> IndentSize g \<Longrightarrow>
   (if f then strings_Repeat '' '' (IndentSize g + 1)
    else map_sum id (\<lambda>s. EdgeTypeLink g @ s) (strings_Repeat '' '' (IndentSize g)))
   = Inr (expected_segment g f)"
  by (simp add: strings_Repeat_blank expected_segment_def)

lemma isEnded_set: "isEnded le l = (l \<in> set le)"
  by (induction le) auto

lemma indent_loop_flags:
  assumes "0 \<le> IndentSize g" "\<forall>j<length flags. isEnded le (int j) = flags ! j"
  shows "i \<le> length flags \<Longrightarrow>
         indent_loop g le (int i) (int (length flags))
           = Inr (concat (map (expected_segment g) (drop i flags)))"
proof (induction "length flags - i" arbitrary: i)
  case 0
  then show ?case by (subst indent_loop.simps) simp
next
  case (Suc k)
  then have lt: "i < length flags" by simp
  have step: "indent_loop g le (int i + 1) (int (length flags))
               = Inr (concat (map (expected_segment g) (drop (Suc i) flags)))"
    using Suc.hyps(1)[of "Suc i"] Suc.hyps(2) lt by (simp add: add.commute)
  have d: "drop i flags = flags ! i # drop (Suc i) flags"
    using lt by (simp add: Cons_nth_drop_Suc)
  have e: "isEnded le (int i) = flags ! i"
    using assms(2) lt by simp
  show ?case
    using lt segment_ok[OF assms(1), of "flags ! i"]
    by (subst indent_loop.simps) (simp add: step d e)
qed

text \<open>
  The loop of \<^verbatim>\<open>padding\<close> started at level \<open>l\<close> on a node whose walk up has at most
  \<open>l + 1\<close> steps: it overwrites the entries of the walked levels and leaves the others.
\<close>

lemma padding_loop_chain:
  assumes "0 \<le> IndentSize g"
  shows "up_chain h n fs \<Longrightarrow> length fs \<le> Suc l \<Longrightarrow> l < length links \<Longrightarrow>
         padding_loop g h links (int l) n
           = Inr (take (Suc l - length fs) links @ map (expected_segment g) (rev fs) @ drop (Suc l) links)"
proof (induction fs arbitrary: n links l)
  case Nil
  then show ?case by (subst padding_loop.simps) simp
next
  case (Cons f fs)
  from Cons.prems(1) obtain r where r: "Root (cells h n) = Some r"
    and f: "(FindLastNode h r = Some n) = f" and up: "up_chain h r fs"
    by (auto split: option.splits)
  let ?links = "links[l := expected_segment g f]"
  have il: "isLast h n = Inr f"
    using r f by (simp add: isLast_def)
  have dr: "drop l ?links = expected_segment g f # drop (Suc l) links"
    using Cons.prems(3) by (simp add: upd_conv_take_nth_drop)
  have rec: "padding_loop g h ?links (int l - 1) r
               = Inr (take (l - length fs) links @ map (expected_segment g) (rev fs) @ drop l ?links)"
  proof (cases fs)
    case Nil
    then have "Root (cells h r) = None"
      using up by simp
    then show ?thesis
      using Nil Cons.prems(3)
      by (subst padding_loop.simps) (simp add: upd_conv_take_nth_drop)
  next
    case (Cons f' fs')
    then obtain l' where l': "l = Suc l'"
      using Cons.prems(2) by (cases l) auto
    have "padding_loop g h ?links (int l') r
            = Inr (take (Suc l' - length fs) ?links @ map (expected_segment g) (rev fs)
                   @ drop (Suc l') ?links)"
      using Cons.prems(2,3) l' by (intro Cons.IH[OF up]) simp_all
    moreover have "take (Suc l' - length fs) ?links = take (l - length fs) links"
      using l' by simp
    ultimately show ?thesis
      using l' by simp
  qed
  have tk: "Suc l - length (f # fs) = l - length fs"
    by simp
  show ?case
    using Cons.prems(3) segment_ok[OF assms, of f]
    by (subst padding_loop.simps) (simp add: r il rec dr tk del: list.size)
qed

lemma padding_chain:
  assumes "0 \<le> IndentSize g" "up_chain h n fs" "length fs \<le> Suc l"
  shows "padding g h (int l) n = Inr (expected_padding g (rev fs))"
proof -
  let ?links = "replicate (Suc l) ([]::string)"
  have loop: "padding_loop g h ?links (int l) n
                = Inr (take (Suc l - length fs) ?links @ map (expected_segment g) (rev fs)
                       @ drop (Suc l) ?links)"
    by (rule padding_loop_chain[OF assms]) simp
  have blank: "concat (take (Suc l - length fs) ?links) = []"
    by (simp only: take_replicate concat_replicate_empty)
  have n1: "nat (int l + 1) = Suc l"
    by simp
  show ?thesis
    unfolding padding_def n1 loop
    using blank by (simp add: expected_padding_def del: replicate_Suc)
qed

lemma strings_Split_nonempty: "strings_Split s \<noteq> []"
  by (induction s) (auto split: list.splits)

lemma strings_Split_length:
  "length (strings_Split s) = Suc (length (filter (\<lambda>c. c = CHR 0x0A) s))"
  by (induction s) (auto split: list.splits)

lemma single_line_iff: "length (strings_Split s) < 2 \<longleftrightarrow> CHR 0x0A \<notin> set s"
  by (auto simp: strings_Split_length filter_empty_conv less_Suc_eq)

lemma strings_Join_Cons: "strings_Join (l # ls) = l @ concat (map (\<lambda>x. [CHR 0x0A] @ x) ls)"
  by (induction ls arbitrary: l) auto

lemma expected_value_text_single:
  assumes "CHR 0x0A \<notin> set (printValue fmtv p v)"
  shows "expected_value_text fmtv p pad v = Sprint fmtv v"
proof -
  have "length (strings_Split (printValue fmtv p v)) < 2"
    using assms by (simp add: single_line_iff)
  then show ?thesis
    by (auto simp: expected_value_text_def split: list.splits)
qed

lemma renderValue_single:
  "CHR 0x0A \<notin> set (printValue fmtv p (Value (cells h n))) \<Longrightarrow>
   renderValue g fmtv h p level n = Inr (Value (cells h n))"
  by (simp add: renderValue_def single_line_iff)

lemma renderValue_text:
  assumes "0 \<le> IndentSize g" "up_chain h n fs" "length fs \<le> Suc (length flags)"
  shows "map_sum id (Sprint fmtv) (renderValue g fmtv h p (int (length flags)) n)
           = Inr (expected_value_text fmtv p (expected_padding g (rev fs)) (Value (cells h n)))"
proof (cases "strings_Split (printValue fmtv p (Value (cells h n)))")
  case Nil
  then show ?thesis by (simp add: strings_Split_nonempty)
next
  case outer: (Cons l1 rest)
  show ?thesis
  proof (cases rest)
    case Nil
    then show ?thesis
      using outer by (simp add: renderValue_def expected_value_text_def)
  next
    case (Cons l2 ls)
    have "padding g h (int (length flags)) n = Inr (expected_padding g (rev fs))"
      by (rule padding_chain[OF assms])
    then show ?thesis
      using Cons outer
      by (simp add: renderValue_def expected_value_text_def strings_Join_Cons comp_def)
  qed
qed

lemma printValues_line:
  assumes "0 \<le> IndentSize g" "up_chain h n fs" "length fs \<le> Suc (length flags)"
    and "\<forall>j<length flags. isEnded le (int j) = flags ! j"
  shows "printValues g fmtv h p (int (length flags)) le (if f then EdgeTypeEnd g else EdgeTypeMid g) n
           = Inr (expected_line g fmtv p flags f (rev fs) (cells h n))"
proof -
  have ind: "indent_loop g le 0 (int (length flags)) = Inr (expected_padding g flags)"
    using indent_loop_flags[OF assms(1) assms(4), of 0] by (simp add: expected_padding_def)
  from renderValue_text[OF assms(1) assms(2) assms(3), of fmtv p]
  obtain val where val: "renderValue g fmtv h p (int (length flags)) n = Inr val"
    and tx: "Sprint fmtv val
               = expected_value_text fmtv p (expected_padding g (rev fs)) (Value (cells h n))"
    by (cases "renderValue g fmtv h p (int (length flags)) n") auto
  show ?thesis
    by (simp add: printValues_def ind val tx expected_line_def)
qed

lemma printValues_line_single:
  assumes "0 \<le> IndentSize g" "CHR 0x0A \<notin> set (printValue fmtv p (Value (cells h n)))"
    and "\<forall>j<length flags. isEnded le (int j) = flags ! j"
  shows "printValues g fmtv h p (int (length flags)) le (if f then EdgeTypeEnd g else EdgeTypeMid g) n
           = Inr (expected_line g fmtv p flags f walked (cells h n))"
proof -
  have ind: "indent_loop g le 0 (int (length flags)) = Inr (expected_padding g flags)"
    using indent_loop_flags[OF assms(1) assms(3), of 0] by (simp add: expected_padding_def)
  show ?thesis
    by (simp add: printValues_def ind renderValue_single[OF assms(2)] expected_line_def
          expected_value_text_single[OF assms(2)])
qed

lemma last_of_suffix:
  assumes "distinct (pre @ a # b # bs)"
  shows "(pre @ a # b # bs) ! (length (pre @ a # b # bs) - 1) \<noteq> a"
proof -
  have "(pre @ a # b # bs) ! (length (pre @ a # b # bs) - 1) = last (pre @ a # b # bs)"
    by (simp add: last_conv_nth)
  also have "\<dots> = last (b # bs)"
    by simp
  also have "\<dots> \<in> set (b # bs)"
    by (rule last_in_set) simp
  finally show ?thesis
    using assms by auto
qed

section \<open>Rendering a tree from its root\<close>

lemma printNodes_expected:
  "0 \<le> IndentSize g \<Longrightarrow> list_all (shape_at h) ts \<Longrightarrow> list_all (links_ok h) ts \<Longrightarrow>
   Nodes (cells h parent) = pre @ map addr ts \<Longrightarrow> distinct (pre @ map addr ts) \<Longrightarrow>
   list_all (\<lambda>t. Root (cells h (addr t)) = Some parent \<or> Root (cells h (addr t)) = None) ts \<Longrightarrow>
   up_chain h parent (rev walked) \<Longrightarrow> length walked \<le> length flags \<Longrightarrow>
   \<forall>j<length flags. isEnded le (int j) = flags ! j \<Longrightarrow>
   \<forall>l\<in>set le. l < int (length flags) \<Longrightarrow>
   printNodes g fmtv h p (int (length flags)) le (map addr ts)
     = Some (Inr (expected_nodes g fmtv h p flags walked ts))"
proof (induction g fmtv h p flags walked ts arbitrary: le pre parent rule: expected_nodes.induct)
  case (1 g fmtv h p flags walked)
  show ?case by (simp add: printNodes_Nil)
next
  case (2 g fmtv h p flags walked n cs ts)
  let ?f = "ts = []"
  let ?L = "int (length flags)"
  let ?le = "if ts = [] then le @ [?L] else le"
  let ?w = "if Root (cells h n) = None then [] else walked @ [?f]"
  have g0: "0 \<le> IndentSize g"
    using "2.prems"(1) .
  have root_n: "Root (cells h n) = Some parent \<or> Root (cells h n) = None"
    using "2.prems"(6) by simp
  have last_n: "(FindLastNode h parent = Some n) = ?f"
  proof (cases ts)
    case Nil
    then show ?thesis
      using "2.prems"(4) by (simp add: FindLastNode_def)
  next
    case (Cons t' ts')
    then show ?thesis
      using "2.prems"(4) last_of_suffix[of pre n "addr t'" "map addr ts'"] "2.prems"(5)
      by (simp add: FindLastNode_def)
  qed
  have chain_n: "up_chain h n (rev ?w)"
    using root_n last_n "2.prems"(7) by auto
  have len_w: "length (rev ?w) \<le> Suc (length flags)"
    using "2.prems"(8) by simp
  have le_ok: "\<forall>j<length flags. isEnded ?le (int j) = flags ! j"
    using "2.prems"(9) by (auto simp: isEnded_set)
  have line: "printValues g fmtv h p ?L ?le (if ?f then EdgeTypeEnd g else EdgeTypeMid g) n
                = Inr (expected_line g fmtv p flags ?f ?w (cells h n))"
    using printValues_line[OF g0 chain_n len_w le_ok, of fmtv p ?f] by simp
  have kids_n: "Nodes (cells h n) = map addr cs"
    using "2.prems"(2) by simp
  have sub: "(if length (Nodes (cells h n)) > 0
              then printNodes g fmtv h p (?L + 1) ?le (Nodes (cells h n)) else Some (Inr []))
             = Some (Inr (expected_nodes g fmtv h p (flags @ [?f]) ?w cs))"
  proof (cases cs)
    case Nil
    then show ?thesis
      using kids_n by simp
  next
    case (Cons c cs')
    have le1: "\<forall>j<length (flags @ [?f]). isEnded ?le (int j) = (flags @ [?f]) ! j"
      using "2.prems"(9,10) by (auto simp: isEnded_set nth_append less_Suc_eq)
    have le2: "\<forall>l\<in>set ?le. l < int (length (flags @ [?f]))"
      using "2.prems"(10) by auto
    have len2: "length ?w \<le> length (flags @ [?f])"
      using "2.prems"(8) by simp
    have "printNodes g fmtv h p (int (length (flags @ [?f]))) ?le (map addr cs)
            = Some (Inr (expected_nodes g fmtv h p (flags @ [?f]) ?w cs))"
      using "2.prems"(2,3)
      by (intro "2.IH"(1)[OF g0, where pre="[]" and parent=n])
         (use kids_n chain_n le1 le2 len2 in \<open>simp_all add: list_all_iff\<close>)
    then show ?thesis
      using kids_n Cons by (simp add: add.commute)
  qed
  have rest: "printNodes g fmtv h p ?L ?le (map addr ts)
                = Some (Inr (expected_nodes g fmtv h p flags walked ts))"
  proof (cases ts)
    case Nil
    then show ?thesis
      by (simp add: printNodes_Nil)
  next
    case (Cons t' ts')
    then have le_eq: "?le = le"
      by simp
    show ?thesis
      unfolding le_eq
      using "2.prems"(2,3,4,5,6,7,8,9,10)
      by (intro "2.IH"(2)[OF g0, where pre="pre @ [n]" and parent=parent]) simp_all
  qed
  show ?case
    using line sub rest
    by (simp add: printNodes_Cons Let_def del: length_greater_0_conv)
qed

lemma Bytes_expected:
  assumes "0 \<le> IndentSize g" "shape_at h t" "links_ok h t" "Root (cells h (addr t)) = None"
  shows "Bytes g fmtv h (addr t) p = Some (Inr (expected_render g fmtv h p t))"
proof (cases t)
  case (Sh n ts)
  have "printNodes g fmtv h p (int (length ([]::bool list))) [] (map addr ts)
          = Some (Inr (expected_nodes g fmtv h p [] [] ts))"
    using assms Sh
    by (intro printNodes_expected[where pre="[]" and parent=n]) (simp_all add: list_all_iff)
  then show ?thesis
    using assms Sh by (simp add: Bytes_def expected_render_def printNodes_Nil)
qed

text \<open>When no value of the subtrees renders to several lines, \<^verbatim>\<open>padding\<close> is never called
  and the \<^verbatim>\<open>Root\<close> fields play no part.\<close>

lemma printNodes_single_line:
  "0 \<le> IndentSize g \<Longrightarrow> list_all (shape_at h) ts \<Longrightarrow>
   \<forall>q \<in> set (concat (map (\<lambda>c. addr c # descendants c) ts)).
      CHR 0x0A \<notin> set (printValue fmtv p (Value (cells h q))) \<Longrightarrow>
   \<forall>j<length flags. isEnded le (int j) = flags ! j \<Longrightarrow>
   \<forall>l\<in>set le. l < int (length flags) \<Longrightarrow>
   printNodes g fmtv h p (int (length flags)) le (map addr ts)
     = Some (Inr (expected_nodes g fmtv h p flags walked ts))"
proof (induction g fmtv h p flags walked ts arbitrary: le rule: expected_nodes.induct)
  case (1 g fmtv h p flags walked)
  show ?case by (simp add: printNodes_Nil)
next
  case (2 g fmtv h p flags walked n cs ts)
  let ?f = "ts = []"
  let ?L = "int (length flags)"
  let ?le = "if ts = [] then le @ [?L] else le"
  let ?w = "if Root (cells h n) = None then [] else walked @ [?f]"
  have g0: "0 \<le> IndentSize g"
    using "2.prems"(1) .
  have single_n: "CHR 0x0A \<notin> set (printValue fmtv p (Value (cells h n)))"
    using "2.prems"(3) by simp
  have le_ok: "\<forall>j<length flags. isEnded ?le (int j) = flags ! j"
    using "2.prems"(4) by (auto simp: isEnded_set)
  have line: "printValues g fmtv h p ?L ?le (if ?f then EdgeTypeEnd g else EdgeTypeMid g) n
                = Inr (expected_line g fmtv p flags ?f ?w (cells h n))"
    by (rule printValues_line_single[OF g0 single_n le_ok])
  have kids_n: "Nodes (cells h n) = map addr cs"
    using "2.prems"(2) by simp
  have sub: "(if length (Nodes (cells h n)) > 0
              then printNodes g fmtv h p (?L + 1) ?le (Nodes (cells h n)) else Some (Inr []))
             = Some (Inr (expected_nodes g fmtv h p (flags @ [?f]) ?w cs))"
  proof (cases cs)
    case Nil
    then show ?thesis
      using kids_n by simp
  next
    case (Cons c cs')
    have le1: "\<forall>j<length (flags @ [?f]). isEnded ?le (int j) = (flags @ [?f]) ! j"
      using "2.prems"(4,5) by (auto simp: isEnded_set nth_append less_Suc_eq)
    have le2: "\<forall>l\<in>set ?le. l < int (length (flags @ [?f]))"
      using "2.prems"(5) by auto
    have "printNodes g fmtv h p (int (length (flags @ [?f]))) ?le (map addr cs)
            = Some (Inr (expected_nodes g fmtv h p (flags @ [?f]) ?w cs))"
      using "2.prems"(2,3)
      by (intro "2.IH"(1)[OF g0]) (use le1 le2 in \<open>simp_all add: list_all_iff\<close>)
    then show ?thesis
      using kids_n Cons by (simp add: add.commute)
  qed
  have rest: "printNodes g fmtv h p ?L ?le (map addr ts)
                = Some (Inr (expected_nodes g fmtv h p flags walked ts))"
  proof (cases ts)
    case Nil
    then show ?thesis
      by (simp add: printNodes_Nil)
  next
    case (Cons t' ts')
    then have le_eq: "?le = le"
      by simp
    show ?thesis
      unfolding le_eq
      using "2.prems"(2,3,4,5)
      by (intro "2.IH"(2)[OF g0]) simp_all
  qed
  show ?case
    using line sub rest
    by (simp add: printNodes_Cons Let_def del: length_greater_0_conv)
qed

lemma replicate_small:
  "replicate 2 c = [c, c]" "replicate 3 c = [c, c, c]" "replicate 4 c = [c, c, c, c]"
  by (simp_all add: eval_nat_numeral)

lemmas expected_defs =
  expected_render_def expected_line_def expected_padding_def expected_segment_def
  expected_value_text_def printNode_def printMeta_def printValue_def DefaultPrintValue_def
  DefaultPrintMeta_def replicate_small

text \<open>
  C1, as amended. With a non-negative \<^verbatim>\<open>IndentSize\<close>: (a) for a node \<open>n\<close> whose walk up to
  the nearest node without parent meets the last-child flags \<open>fs\<close> (its own first),
  \<^verbatim>\<open>padding\<close> called with a level of at least the number of steps minus one returns one
  segment per level walked, the topmost first and the node's own last: blank
  (\<open>IndentSize + 1\<close> spaces) where the node of that level is a last child, the vertical
  link followed by \<open>IndentSize\<close> spaces otherwise; (b) rendering a tree from its parentless
  root, whether or not \<^verbatim>\<open>Branch\<close> was called on nodes inside it, returns the layout
  \<open>expected_render\<close>, in which every node whose value renders to several lines has each
  line after the first prefixed with exactly that padding. When no node on the way up
  was detached, the walk ends at the root and there is one segment for every level.
\<close>

theorem Bytes_continuation_padding:
  assumes "0 \<le> IndentSize g"
  shows "(up_chain h n fs \<and> length fs \<le> Suc l \<longrightarrow>
            padding g h (int l) n = Inr (expected_padding g (rev fs)))
         \<and> (shape_at h t \<and> links_ok h t \<and> Root (cells h (addr t)) = None \<longrightarrow>
              Bytes g fmtv h (addr t) p = Some (Inr (expected_render g fmtv h p t)))"
proof (intro conjI impI)
  show "padding g h (int l) n = Inr (expected_padding g (rev fs))"
    if "up_chain h n fs \<and> length fs \<le> Suc l"
    using that padding_chain[OF assms, of h n fs l] by blast
  show "Bytes g fmtv h (addr t) p = Some (Inr (expected_render g fmtv h p t))"
    if "shape_at h t \<and> links_ok h t \<and> Root (cells h (addr t)) = None"
    using that Bytes_expected[OF assms, of h t fmtv p] by blast
qed

text \<open>
  The example \<open>nested\<close>: the leaf with the value \<open>l1\<close>, \<open>l2\<close>, \<open>l3\<close> is two levels deep,
  under the non-last branch \<open>a\<close> and itself not the last child. Its padding is two link
  segments, and the rendering of the tree is \<open>nested_rendering\<close>. The example
  \<open>detached\<close>: the walk from the leaf ends at the detached branch \<open>a\<close>, and the rendering
  of the tree is \<open>detached_rendering\<close>.
\<close>

theorem Bytes_continuation_padding_witness:
  "0 \<le> IndentSize initial_globals
   \<and> up_chain nested 2 [False, False] \<and> length [False, False] \<le> Suc 1
   \<and> padding initial_globals nested 1 2
       = Inr (EdgeTypeLink initial_globals @ ''   '' @ EdgeTypeLink initial_globals @ ''   '')
   \<and> shape_at nested nested_shape \<and> links_ok nested nested_shape
   \<and> Root (cells nested (addr nested_shape)) = None
   \<and> Bytes initial_globals (\<lambda>_. []) nested 0 no_format = Some (Inr nested_rendering)
   \<and> shape_at detached detached_shape \<and> links_ok detached detached_shape
   \<and> Root (cells detached (addr detached_shape)) = None
   \<and> Bytes initial_globals (\<lambda>_. []) detached 0 no_format = Some (Inr detached_rendering)"
proof -
  have g: "0 \<le> IndentSize initial_globals"
    by (simp add: initial_globals_def)
  have up: "up_chain nested 2 [False, False] \<and> length [False, False] \<le> Suc 1"
    by (simp add: nested_cells FindLastNode_def)
  have tree: "shape_at nested nested_shape \<and> links_ok nested nested_shape
              \<and> Root (cells nested (addr nested_shape)) = None"
    by (simp add: nested_shape_def nested_cells)
  have tree2: "shape_at detached detached_shape \<and> links_ok detached detached_shape
              \<and> Root (cells detached (addr detached_shape)) = None"
    by (simp add: detached_shape_def detached_cells)
  have ex: "expected_render initial_globals (\<lambda>_. []) nested no_format nested_shape = nested_rendering"
    by (simp add: expected_defs nested_shape_def nested_cells no_format_def three_lines_def
          nested_rendering_def initial_globals_def)
  have ex2: "expected_render initial_globals (\<lambda>_. []) detached no_format detached_shape
               = detached_rendering"
    by (simp add: expected_defs detached_shape_def detached_cells no_format_def two_lines_def
          detached_rendering_def initial_globals_def)
  have pad: "expected_padding initial_globals (rev [False, False])
               = EdgeTypeLink initial_globals @ ''   '' @ EdgeTypeLink initial_globals @ ''   ''"
    by (simp add: expected_defs initial_globals_def)
  show ?thesis
    using Bytes_continuation_padding[OF g, of nested 2 "[False, False]" 1 nested_shape "\<lambda>_. []" no_format]
      Bytes_continuation_padding[OF g, of detached 2 "[True]" 1 detached_shape "\<lambda>_. []" no_format]
      g up tree tree2 ex ex2 pad
    by (simp add: nested_shape_def detached_shape_def)
qed

text \<open>
  C1 as stated fails on a tree with a detached node inside. In \<open>detached\<close> the branch
  \<open>a\<close> is the last child of the root and the leaf is the last child of \<open>a\<close>, so one
  segment per level from the root level down is two blank segments; the rendering from
  the root prefixes the second line of the leaf's value with one blank segment only.
\<close>

theorem Bytes_continuation_padding_counterexample:
  "Root (cells detached 0) = None
   \<and> FindLastNode detached 0 = Some 1 \<and> FindLastNode detached 1 = Some 2
   \<and> Value (cells detached 2) = VStr two_lines
   \<and> String initial_globals (\<lambda>_. []) detached 0 = Some (Inr detached_rendering)
   \<and> String initial_globals (\<lambda>_. []) detached 0 \<noteq> Some (Inr detached_rendering_every_level)"
  by (simp add: String_def Bytes_def detached_cells render_defs indent_loop.simps isEnded_set
        two_lines_def initial_globals_def printNodes_Cons printNodes_Nil
        detached_rendering_def detached_rendering_every_level_def replicate_small)

section \<open>Rendering a node that has a parent\<close>

text \<open>
  C2. Rendering is not total. In the example \<open>nested\<close>, \<^verbatim>\<open>String()\<close> on the leaf with the
  value of three lines (address 2, whose parent has a parent) panics: \<^verbatim>\<open>padding\<close> is called
  with level 0, makes a slice of one string and, on its second step up, writes at index -1.
\<close>

theorem String_panics_on_nested_multiline:
  "String initial_globals (\<lambda>_. []) nested 2 = Some (Inl IndexOutOfRange)"
  by (simp add: String_def Bytes_def nested_cells render_defs three_lines_def initial_globals_def)

text \<open>
  C3, as amended. When rendering is invoked on a node that has a parent, the connector of
  the node's own line is chosen by whether the node has children, and the children follow
  at the same level. (a) A node without children whose value renders to a single line is
  rendered as the last-branch glyph, a space, the optional meta, the value and a line
  break. (b) With a non-negative \<^verbatim>\<open>IndentSize\<close>, a node on top of a tree of the store in
  which every value renders to a single line is rendered as the last-branch glyph when it
  has no children and the mid-branch glyph when it has, then a space, the optional meta,
  the value and a line break, followed by the lines of its children laid out as a list of
  siblings at level 0, the level of the node's own line. (c) Every rendering that returns
  a text starts with the glyph chosen in this way and a space.
\<close>

theorem Bytes_connector_by_children:
  assumes "Root (cells h n) \<noteq> None"
  shows "(Nodes (cells h n) = [] \<and> CHR 0x0A \<notin> set (printValue fmtv p (Value (cells h n))) \<longrightarrow>
            Bytes g fmtv h n p
              = Some (Inr (EdgeTypeEnd g @ '' ''
                           @ (if Meta (cells h n) \<noteq> VNil then printMeta fmtv p (Meta (cells h n)) else [])
                           @ Sprint fmtv (Value (cells h n)) @ [CHR 0x0A])))
         \<and> (0 \<le> IndentSize g \<and> shape_at h t \<and> addr t = n
              \<and> (\<forall>q \<in> set (n # descendants t). CHR 0x0A \<notin> set (printValue fmtv p (Value (cells h q)))) \<longrightarrow>
            Bytes g fmtv h n p
              = Some (Inr ((if Nodes (cells h n) = [] then EdgeTypeEnd g else EdgeTypeMid g) @ '' ''
                           @ (if Meta (cells h n) \<noteq> VNil then printMeta fmtv p (Meta (cells h n)) else [])
                           @ Sprint fmtv (Value (cells h n)) @ [CHR 0x0A]
                           @ expected_nodes g fmtv h p [] [] (kids t))))
         \<and> (Bytes g fmtv h n p = Some (Inr out) \<longrightarrow>
              (\<exists>rest. out = (if Nodes (cells h n) = [] then EdgeTypeEnd g else EdgeTypeMid g)
                              @ '' '' @ rest))"
proof (intro conjI impI)
  show "Bytes g fmtv h n p
          = Some (Inr (EdgeTypeEnd g @ '' ''
                       @ (if Meta (cells h n) \<noteq> VNil then printMeta fmtv p (Meta (cells h n)) else [])
                       @ Sprint fmtv (Value (cells h n)) @ [CHR 0x0A]))"
    if "Nodes (cells h n) = [] \<and> CHR 0x0A \<notin> set (printValue fmtv p (Value (cells h n)))"
    using that assms
    by (auto simp: Bytes_def printValues_def indent_loop_0 renderValue_def single_line_iff Let_def)
  show "Bytes g fmtv h n p
          = Some (Inr ((if Nodes (cells h n) = [] then EdgeTypeEnd g else EdgeTypeMid g) @ '' ''
                       @ (if Meta (cells h n) \<noteq> VNil then printMeta fmtv p (Meta (cells h n)) else [])
                       @ Sprint fmtv (Value (cells h n)) @ [CHR 0x0A]
                       @ expected_nodes g fmtv h p [] [] (kids t)))"
    if hyp: "0 \<le> IndentSize g \<and> shape_at h t \<and> addr t = n
             \<and> (\<forall>q \<in> set (n # descendants t). CHR 0x0A \<notin> set (printValue fmtv p (Value (cells h q))))"
  proof -
    have g0: "0 \<le> IndentSize g" and sh: "shape_at h t" and top: "addr t = n"
      using hyp by simp_all
    have single_n: "CHR 0x0A \<notin> set (printValue fmtv p (Value (cells h n)))"
      using hyp by simp
    have kids_n: "Nodes (cells h n) = map addr (kids t)"
      using shape_at_kids[OF sh] top by simp
    have below: "\<forall>q \<in> set (concat (map (\<lambda>c. addr c # descendants c) (kids t))).
                   CHR 0x0A \<notin> set (printValue fmtv p (Value (cells h q)))"
      using hyp by (cases t) simp
    have own: "\<And>le edge. printValues g fmtv h p 0 le edge n
                 = Inr (edge @ '' ''
                        @ (if Meta (cells h n) \<noteq> VNil then printMeta fmtv p (Meta (cells h n)) else [])
                        @ Sprint fmtv (Value (cells h n)) @ [CHR 0x0A])"
      using single_n by (simp add: printValues_def indent_loop_0 renderValue_single)
    have "printNodes g fmtv h p (int (length ([]::bool list))) [] (map addr (kids t))
            = Some (Inr (expected_nodes g fmtv h p [] [] (kids t)))"
      using shape_at_kids_all[OF sh] below
      by (intro printNodes_single_line[OF g0]) simp_all
    then have children: "printNodes g fmtv h p 0 [] (Nodes (cells h n))
                           = Some (Inr (expected_nodes g fmtv h p [] [] (kids t)))"
      using kids_n by simp
    show ?thesis
    proof (cases "kids t")
      case Nil
      then show ?thesis
        using assms kids_n own by (auto simp: Bytes_def Let_def)
    next
      case (Cons c cs)
      then show ?thesis
        using assms kids_n own children by (auto simp: Bytes_def Let_def)
    qed
  qed
  show "\<exists>rest. out = (if Nodes (cells h n) = [] then EdgeTypeEnd g else EdgeTypeMid g) @ '' '' @ rest"
    if "Bytes g fmtv h n p = Some (Inr out)"
    using that assms
    by (auto simp: Bytes_def printValues_def indent_loop_0 Let_def
        split: sum.splits if_splits option.splits bind_splits)
qed

text \<open>
  In \<open>two_leaves\<close> the leaf \<open>a\<close> has a parent and no children: its rendering is the
  last-branch glyph followed by \<open>a\<close>. In \<open>with_meta\<close> the branch \<open>a\<close> has a parent and a
  child: its rendering is the mid-branch glyph followed by \<open>a\<close>, then the lines of its
  child \<open>b\<close> and of the leaf below, \<open>b\<close> at the level of \<open>a\<close>.
\<close>

theorem Bytes_connector_by_children_witness:
  "Root (cells two_leaves 1) \<noteq> None
   \<and> Nodes (cells two_leaves 1) = []
   \<and> CHR 0x0A \<notin> set (printValue (\<lambda>_. []) no_format (Value (cells two_leaves 1)))
   \<and> Bytes initial_globals (\<lambda>_. []) two_leaves 1 no_format
       = Some (Inr (EdgeTypeEnd initial_globals @ '' a'' @ [CHR 0x0A]))
   \<and> Root (cells with_meta 1) \<noteq> None
   \<and> 0 \<le> IndentSize initial_globals
   \<and> shape_at with_meta (Sh 1 [Sh 2 [Sh 3 []]])
   \<and> CHR 0x0A \<notin> set (printValue (\<lambda>_. []) no_format (Value (cells with_meta 1)))
   \<and> CHR 0x0A \<notin> set (printValue (\<lambda>_. []) no_format (Value (cells with_meta 2)))
   \<and> CHR 0x0A \<notin> set (printValue (\<lambda>_. []) no_format (Value (cells with_meta 3)))
   \<and> Nodes (cells with_meta 1) = [2]
   \<and> Bytes initial_globals (\<lambda>_. []) with_meta 1 no_format = Some (Inr with_meta_branch_rendering)
   \<and> (\<exists>rest. with_meta_branch_rendering = EdgeTypeMid initial_globals @ '' '' @ rest)"
proof -
  have r: "Root (cells two_leaves 1) \<noteq> None" and r2: "Root (cells with_meta 1) \<noteq> None"
    by (simp_all add: two_leaves_cells with_meta_cells)
  have c: "Nodes (cells two_leaves 1) = []
           \<and> CHR 0x0A \<notin> set (printValue (\<lambda>_. []) no_format (Value (cells two_leaves 1)))"
    by (simp add: two_leaves_cells printValue_def DefaultPrintValue_def no_format_def)
  have c2: "0 \<le> IndentSize initial_globals \<and> shape_at with_meta (Sh 1 [Sh 2 [Sh 3 []]])
            \<and> addr (Sh 1 [Sh 2 [Sh 3 []]]) = 1
            \<and> (\<forall>q \<in> set (1 # descendants (Sh 1 [Sh 2 [Sh 3 []]])).
                  CHR 0x0A \<notin> set (printValue (\<lambda>_. []) no_format (Value (cells with_meta q))))"
    by (simp add: with_meta_cells printValue_def DefaultPrintValue_def no_format_def
          initial_globals_def)
  have ex: "EdgeTypeMid initial_globals @ '' ''
            @ (if Meta (cells with_meta 1) \<noteq> VNil
               then printMeta (\<lambda>_. []) no_format (Meta (cells with_meta 1)) else [])
            @ Sprint (\<lambda>_. []) (Value (cells with_meta 1)) @ [CHR 0x0A]
            @ expected_nodes initial_globals (\<lambda>_. []) with_meta no_format [] [] (kids (Sh 1 [Sh 2 [Sh 3 []]]))
            = with_meta_branch_rendering"
    by (simp add: expected_defs with_meta_cells no_format_def with_meta_branch_rendering_def
          initial_globals_def)
  from Bytes_connector_by_children[OF r, of "\<lambda>_. []" no_format initial_globals] c
  have b: "Bytes initial_globals (\<lambda>_. []) two_leaves 1 no_format
             = Some (Inr (EdgeTypeEnd initial_globals @ '' a'' @ [CHR 0x0A]))"
    by (simp add: two_leaves_cells)
  from Bytes_connector_by_children[OF r2, of "\<lambda>_. []" no_format initial_globals "Sh 1 [Sh 2 [Sh 3 []]]"] c2 ex
  have b2: "Bytes initial_globals (\<lambda>_. []) with_meta 1 no_format = Some (Inr with_meta_branch_rendering)"
    by (simp add: with_meta_cells)
  from Bytes_connector_by_children[OF r2, of "\<lambda>_. []" no_format initial_globals "Sh 1 [Sh 2 [Sh 3 []]]"
      with_meta_branch_rendering] b2
  have pre: "\<exists>rest. with_meta_branch_rendering = EdgeTypeMid initial_globals @ '' '' @ rest"
    by (simp add: with_meta_cells)
  show ?thesis
    using r r2 b b2 c c2 pre by (simp add: with_meta_cells)
qed

text \<open>
  C3 as stated fails: in \<open>two_leaves\<close> the leaf \<open>a\<close> is not the last child of the root
  (\<^verbatim>\<open>isLast\<close> is false), and its rendering starts with the last-branch glyph, not with the
  mid-branch glyph.
\<close>

theorem Bytes_connector_counterexample:
  "isLast two_leaves 1 = Inr False
   \<and> Bytes initial_globals (\<lambda>_. []) two_leaves 1 no_format
       = Some (Inr (EdgeTypeEnd initial_globals @ '' a'' @ [CHR 0x0A]))
   \<and> Bytes initial_globals (\<lambda>_. []) two_leaves 1 no_format
       \<noteq> Some (Inr (EdgeTypeMid initial_globals @ '' a'' @ [CHR 0x0A]))"
  by (simp add: Bytes_def two_leaves_cells render_defs no_format_def initial_globals_def)

section \<open>The content of a line\<close>

text \<open>
  C4. The value formatter does not determine the text of a single-line value below the
  root. In \<open>two_leaves\<close>, rendered with a value formatter that writes \<open>X\<close> for every
  value, the root line is \<open>X\<close> but the lines of the leaves show \<open>a\<close> and \<open>b\<close>:
  \<^verbatim>\<open>renderValue\<close> returns the unformatted value when the formatted text has one line.
\<close>

theorem Bytes_ignores_ValueFunc_on_single_line:
  "Bytes initial_globals (\<lambda>_. []) two_leaves 0 format_X
     = Some (Inr (''X'' @ [CHR 0x0A]
                  @ EdgeTypeMid initial_globals @ '' a'' @ [CHR 0x0A]
                  @ EdgeTypeEnd initial_globals @ '' b'' @ [CHR 0x0A]))"
  by (simp add: Bytes_def two_leaves_cells render_defs format_X_def initial_globals_def
        printNodes_Cons printNodes_Nil)

section \<open>Leaves appended to a root\<close>

lemma printValues_level0_single:
  "length (strings_Split (printValue fmtv p (Value (cells h n)))) < 2 \<Longrightarrow>
   printValues g fmtv h p 0 le edge n
     = Inr (edge @ '' ''
            @ (if Meta (cells h n) \<noteq> VNil then printMeta fmtv p (Meta (cells h n)) else [])
            @ Sprint fmtv (Value (cells h n)) @ [CHR 0x0A])"
  by (simp add: printValues_def indent_loop_0 renderValue_def)

lemma printNodes_leaves:
  "list_all2 (\<lambda>c v. Meta (cells h c) = VNil \<and> Value (cells h c) = v \<and> Nodes (cells h c) = []) cs vs \<Longrightarrow>
   \<forall>v\<in>set vs. length (strings_Split (printValue fmtv p v)) < 2 \<Longrightarrow>
   printNodes g fmtv h p 0 le cs = Some (Inr (leaf_lines g fmtv vs))"
proof (induction cs vs arbitrary: le rule: list_all2_induct)
  case Nil
  show ?case by (simp add: printNodes_Nil)
next
  case (Cons c cs v vs)
  have e: "(cs = []) = (vs = [])"
    using Cons.hyps(2) by (auto dest: list_all2_lengthD)
  have rest: "\<And>le. printNodes g fmtv h p 0 le cs = Some (Inr (leaf_lines g fmtv vs))"
    using Cons.IH Cons.prems by simp
  have line: "\<And>le edge. printValues g fmtv h p 0 le edge c
                = Inr (edge @ '' '' @ Sprint fmtv v @ [CHR 0x0A])"
    using Cons.hyps(1) Cons.prems by (simp add: printValues_level0_single)
  show ?case
    using Cons.hyps(1) by (simp add: printNodes_Cons line rest e)
qed

lemma AddNode_cells:
  "n < next_free h \<Longrightarrow>
   cells (snd (AddNode h n v)) = (cells h)
      (next_free h := \<lparr>Root = Some n, Meta = VNil, Value = v, Nodes = []\<rparr>,
       n := (cells h n)\<lparr>Nodes := Nodes (cells h n) @ [next_free h]\<rparr>)"
  "next_free (snd (AddNode h n v)) = Suc (next_free h)"
  by (auto simp: AddNode_def alloc_def append_child_def)

lemma AddNodes_effect:
  "n < next_free h \<Longrightarrow>
   Nodes (cells (AddNodes h n vs) n) = Nodes (cells h n) @ [next_free h ..< next_free h + length vs]
   \<and> Root (cells (AddNodes h n vs) n) = Root (cells h n)
   \<and> Meta (cells (AddNodes h n vs) n) = Meta (cells h n)
   \<and> Value (cells (AddNodes h n vs) n) = Value (cells h n)
   \<and> (\<forall>q. q < next_free h \<and> q \<noteq> n \<longrightarrow> cells (AddNodes h n vs) q = cells h q)
   \<and> list_all2 (\<lambda>c v. cells (AddNodes h n vs) c = \<lparr>Root = Some n, Meta = VNil, Value = v, Nodes = []\<rparr>)
        [next_free h ..< next_free h + length vs] vs"
proof (induction vs arbitrary: h)
  case Nil
  then show ?case by simp
next
  case (Cons v vs)
  let ?h = "snd (AddNode h n v)"
  have lt: "n < next_free ?h"
    using Cons.prems by (simp add: AddNode_cells)
  note IH = Cons.IH[OF lt]
  have nf: "next_free ?h = Suc (next_free h)"
    by (simp add: AddNode_cells)
  have up: "[next_free h ..< next_free h + length (v # vs)]
              = next_free h # [Suc (next_free h) ..< Suc (next_free h) + length vs]"
    by (subst upt_rec) simp
  have new: "cells (AddNodes ?h n vs) (next_free h)
               = \<lparr>Root = Some n, Meta = VNil, Value = v, Nodes = []\<rparr>"
    using IH Cons.prems by (simp add: nf AddNode_cells)
  show ?case
    unfolding up
    using IH Cons.prems new
    by (simp add: nf AddNode_cells)
qed

lemma leaf_lines_breaks:
  assumes "CHR 0x0A \<notin> set (EdgeTypeMid g)" "CHR 0x0A \<notin> set (EdgeTypeEnd g)"
  shows "\<forall>v\<in>set vs. CHR 0x0A \<notin> set (Sprint fmtv v) \<Longrightarrow>
         length (filter (\<lambda>c. c = CHR 0x0A) (leaf_lines g fmtv vs)) = length vs"
  using assms by (induction vs) (auto simp: filter_empty_conv)

text \<open>
  C5. Let \<open>r\<close> be an allocated node without parent and without children, and \<open>vs\<close> a
  list of single-line values: neither the rendering nor the plain text of a value holds
  a line break. After appending the leaves \<open>vs\<close> to \<open>r\<close> with \<^verbatim>\<open>AddNode\<close>, one after the
  other, rendering \<open>r\<close> returns the root's own text and line break followed by exactly
  one line per leaf, in the order of insertion: the mid-branch glyph, or the last-branch
  glyph for the last leaf, then a space, the value and a line break. The children list
  of \<open>r\<close> holds the new nodes in that order, and, when the two glyphs hold no line break,
  the lines of the leaves hold exactly as many line breaks as there are leaves.
\<close>

theorem Bytes_appended_leaves:
  assumes "r < next_free h" "Root (cells h r) = None" "Nodes (cells h r) = []"
    and "\<forall>v\<in>set vs. CHR 0x0A \<notin> set (printValue fmtv p v) \<and> CHR 0x0A \<notin> set (Sprint fmtv v)"
  shows "Bytes g fmtv (AddNodes h r vs) r p
           = Some (Inr (printNode fmtv p (cells h r) @ [CHR 0x0A] @ leaf_lines g fmtv vs))
         \<and> Nodes (cells (AddNodes h r vs) r) = [next_free h ..< next_free h + length vs]
         \<and> map (\<lambda>c. Value (cells (AddNodes h r vs) c)) (Nodes (cells (AddNodes h r vs) r)) = vs
         \<and> (CHR 0x0A \<notin> set (EdgeTypeMid g) \<and> CHR 0x0A \<notin> set (EdgeTypeEnd g) \<longrightarrow>
              length (filter (\<lambda>c. c = CHR 0x0A) (leaf_lines g fmtv vs)) = length vs)"
proof -
  let ?h = "AddNodes h r vs"
  note eff = AddNodes_effect[OF assms(1), of vs]
  have kids: "Nodes (cells ?h r) = [next_free h ..< next_free h + length vs]"
    using eff assms(3) by simp
  have pn: "printNode fmtv p (cells ?h r) = printNode fmtv p (cells h r)"
    using eff by (simp add: printNode_def)
  have la: "list_all2 (\<lambda>c v. Meta (cells ?h c) = VNil \<and> Value (cells ?h c) = v \<and> Nodes (cells ?h c) = [])
              [next_free h ..< next_free h + length vs] vs"
    using eff by (auto elim!: list_all2_mono)
  have sl: "\<forall>v\<in>set vs. length (strings_Split (printValue fmtv p v)) < 2"
    using assms(4) by (simp add: single_line_iff)
  have pr: "printNodes g fmtv ?h p 0 [] [next_free h ..< next_free h + length vs]
              = Some (Inr (leaf_lines g fmtv vs))"
    by (rule printNodes_leaves[OF la sl])
  have root: "Root (cells ?h r) = None"
    using eff assms(2) by simp
  have out: "Bytes g fmtv ?h r p
               = Some (Inr (printNode fmtv p (cells h r) @ [CHR 0x0A] @ leaf_lines g fmtv vs))"
  proof (cases vs)
    case Nil
    then show ?thesis
      using root kids pn by (simp add: Bytes_def)
  next
    case (Cons v vs')
    then show ?thesis
      using root kids pn pr by (simp add: Bytes_def)
  qed
  have vals: "map (\<lambda>c. Value (cells ?h c)) [next_free h ..< next_free h + length vs] = vs"
    using la by (auto simp: list_all2_conv_all_nth intro!: nth_equalityI)
  have plain: "\<forall>v\<in>set vs. CHR 0x0A \<notin> set (Sprint fmtv v)"
    using assms(4) by simp
  have count: "length (filter (\<lambda>c. c = CHR 0x0A) (leaf_lines g fmtv vs)) = length vs"
    if "CHR 0x0A \<notin> set (EdgeTypeMid g) \<and> CHR 0x0A \<notin> set (EdgeTypeEnd g)"
    using that leaf_lines_breaks[OF _ _ plain, of g] by simp
  show ?thesis
    using out kids vals count by simp
qed

text \<open>
  After \<^verbatim>\<open>New()\<close>, appending the leaves \<open>a\<close> and \<open>b\<close> builds the example \<open>two_leaves\<close>, and
  its rendering is \<open>two_leaves_rendering\<close>: the root line and two lines of leaves.
\<close>

theorem Bytes_appended_leaves_witness:
  "(0::nat) < next_free fresh_root
   \<and> Root (cells fresh_root 0) = None \<and> Nodes (cells fresh_root 0) = []
   \<and> CHR 0x0A \<notin> set (printValue (\<lambda>_. []) no_format (VStr ''a''))
   \<and> CHR 0x0A \<notin> set (Sprint (\<lambda>_. []) (VStr ''a'' :: unit Value))
   \<and> CHR 0x0A \<notin> set (printValue (\<lambda>_. []) no_format (VStr ''b''))
   \<and> CHR 0x0A \<notin> set (Sprint (\<lambda>_. []) (VStr ''b'' :: unit Value))
   \<and> AddNodes fresh_root 0 [VStr ''a'', VStr ''b''] = two_leaves
   \<and> Bytes initial_globals (\<lambda>_. []) two_leaves 0 no_format = Some (Inr two_leaves_rendering)
   \<and> Nodes (cells two_leaves 0) = [1, 2]
   \<and> CHR 0x0A \<notin> set (EdgeTypeMid initial_globals) \<and> CHR 0x0A \<notin> set (EdgeTypeEnd initial_globals)
   \<and> length (filter (\<lambda>c. c = CHR 0x0A)
         (leaf_lines initial_globals (\<lambda>_. []) [VStr ''a'', VStr ''b'' :: unit Value])) = 2"
proof -
  have a: "(0::nat) < next_free fresh_root"
    by (simp add: fresh_root_cells)
  have b: "Root (cells fresh_root 0) = None" and c: "Nodes (cells fresh_root 0) = []"
    by (simp_all add: fresh_root_cells)
  have d: "\<forall>v \<in> set [VStr ''a'', VStr ''b''].
             CHR 0x0A \<notin> set (printValue (\<lambda>_. []) no_format v)
             \<and> CHR 0x0A \<notin> set (Sprint (\<lambda>_. []) (v :: unit Value))"
    by (simp add: printValue_def DefaultPrintValue_def no_format_def)
  have e: "AddNodes fresh_root 0 [VStr ''a'', VStr ''b''] = two_leaves"
    by (simp add: two_leaves_def fresh_root_def New_def alloc_def empty_heap_def split: prod.splits)
  have f: "CHR 0x0A \<notin> set (EdgeTypeMid initial_globals) \<and> CHR 0x0A \<notin> set (EdgeTypeEnd initial_globals)"
    by (simp add: initial_globals_def)
  show ?thesis
    using Bytes_appended_leaves[OF a b c d, of initial_globals] a b c d e f
    by (simp add: fresh_root_cells printNode_def printValue_def DefaultPrintValue_def
          no_format_def two_leaves_rendering_def)
qed

section \<open>Rendering a root\<close>

lemma printNodes_newline:
  assumes run: "printNodes g fmtv h p level le ns = Some r"
  shows "\<forall>s. r = Inr s \<longrightarrow> (ns = [] \<and> s = []) \<or> (s \<noteq> [] \<and> last s = CHR 0x0A)"
proof (rule printNodes.raw_induct[where P = "\<lambda>g fmtv h p level le ns r.
        \<forall>s. r = Inr s \<longrightarrow> (ns = [] \<and> s = []) \<or> (s \<noteq> [] \<and> last s = CHR 0x0A)", OF _ run], goal_cases)
  case (1 pn g fmtv h p level le ns r)
  note step = this
  show ?case
  proof (cases ns)
    case Nil
    then show ?thesis
      using step(2) by auto
  next
    case (Cons n rest)
    show ?thesis
    proof (intro allI impI)
      fix s assume rs: "r = Inr s"
      let ?le = "if rest = [] then le @ [level] else le"
      let ?edge = "if rest = [] then EdgeTypeEnd g else EdgeTypeMid g"
      from step(2) Cons rs obtain s1 s2 s3 where
        pv: "printValues g fmtv h p level ?le ?edge n = Inr s1"
        and c2: "(if 0 < length (Nodes (cells h n))
                  then pn g fmtv h p (level + 1) ?le (Nodes (cells h n))
                  else Some (Inr [])) = Some (Inr s2)"
        and c3: "pn g fmtv h p level ?le rest = Some (Inr s3)"
        and s: "s = s1 @ s2 @ s3"
        by (auto simp: Let_def split: sum.splits bind_splits)
      have e1: "s1 \<noteq> [] \<and> last s1 = CHR 0x0A"
        using pv by (auto simp: printValues_def split: sum.splits)
      have e2: "s2 = [] \<or> (s2 \<noteq> [] \<and> last s2 = CHR 0x0A)"
      proof (cases "0 < length (Nodes (cells h n))")
        case True
        with c2 have "pn g fmtv h p (level + 1) ?le (Nodes (cells h n)) = Some (Inr s2)"
          by simp
        from step(1)[OF this] show ?thesis
          by blast
      next
        case False
        with c2 show ?thesis
          by simp
      qed
      have e3: "s3 = [] \<or> (s3 \<noteq> [] \<and> last s3 = CHR 0x0A)"
        using step(1)[OF c3] by blast
      show "(ns = [] \<and> s = []) \<or> (s \<noteq> [] \<and> last s = CHR 0x0A)"
        using e1 e2 e3 s by auto
    qed
  qed
qed

lemma two_leaves_render:
  "Bytes initial_globals (\<lambda>_. []) two_leaves 0 no_format = Some (Inr two_leaves_rendering)"
  by (simp add: Bytes_def two_leaves_cells render_defs no_format_def initial_globals_def
        printNodes_Cons printNodes_Nil two_leaves_rendering_def)

lemma Bytes_root_newline:
  assumes "Root (cells h n) = None" "Bytes g fmtv h n p = Some (Inr out)"
  shows "out \<noteq> [] \<and> last out = CHR 0x0A"
proof (cases "Nodes (cells h n) = []")
  case True
  then show ?thesis
    using assms by (auto simp: Bytes_def)
next
  case False
  with assms obtain s2 where
    pn: "printNodes g fmtv h p 0 [] (Nodes (cells h n)) = Some (Inr s2)"
    and out: "out = printNode fmtv p (cells h n) @ [CHR 0x0A] @ s2"
    by (auto simp: Bytes_def split: sum.splits bind_splits)
  from printNodes_newline[OF pn] False have "s2 \<noteq> [] \<and> last s2 = CHR 0x0A"
    by simp
  then show ?thesis
    using out by simp
qed

text \<open>
  C9, as amended. Rendering a node without parent and without children returns exactly
  the node's content followed by a line break, with no connector before it: the content
  is the rendered value, preceded by the rendered meta and two spaces when the meta is
  set; without meta the text is the rendered value and the line break. With a
  non-negative \<^verbatim>\<open>IndentSize\<close>, rendering the parentless root of any tree of the store,
  whether or not \<^verbatim>\<open>Branch\<close> was called on nodes inside it, returns a text, and that text
  ends with a line break. Whatever the store and the settings, a rendering of a
  parentless node that returns a text returns one that ends with a line break.
\<close>

theorem Bytes_lonely_root:
  assumes "Root (cells h n) = None"
  shows "(Nodes (cells h n) = [] \<longrightarrow>
            Bytes g fmtv h n p = Some (Inr (printNode fmtv p (cells h n) @ [CHR 0x0A])))
         \<and> (Nodes (cells h n) = [] \<and> Meta (cells h n) = VNil \<longrightarrow>
              Bytes g fmtv h n p = Some (Inr (printValue fmtv p (Value (cells h n)) @ [CHR 0x0A])))
         \<and> (0 \<le> IndentSize g \<and> shape_at h t \<and> links_ok h t \<and> addr t = n \<longrightarrow>
              (\<exists>text. Bytes g fmtv h n p = Some (Inr text) \<and> text \<noteq> [] \<and> last text = CHR 0x0A))
         \<and> (Bytes g fmtv h n p = Some (Inr out) \<longrightarrow> out \<noteq> [] \<and> last out = CHR 0x0A)"
proof (intro conjI impI)
  show "Bytes g fmtv h n p = Some (Inr (printNode fmtv p (cells h n) @ [CHR 0x0A]))"
    if "Nodes (cells h n) = []"
    using that assms by (simp add: Bytes_def)
  show "Bytes g fmtv h n p = Some (Inr (printValue fmtv p (Value (cells h n)) @ [CHR 0x0A]))"
    if "Nodes (cells h n) = [] \<and> Meta (cells h n) = VNil"
    using that assms by (simp add: Bytes_def printNode_def)
  show "\<exists>text. Bytes g fmtv h n p = Some (Inr text) \<and> text \<noteq> [] \<and> last text = CHR 0x0A"
    if hyp: "0 \<le> IndentSize g \<and> shape_at h t \<and> links_ok h t \<and> addr t = n"
  proof -
    have "Bytes g fmtv h (addr t) p = Some (Inr (expected_render g fmtv h p t))"
      using hyp assms by (intro Bytes_expected) simp_all
    then have run: "Bytes g fmtv h n p = Some (Inr (expected_render g fmtv h p t))"
      using hyp by simp
    from Bytes_root_newline[OF assms run] run show ?thesis
      by blast
  qed
  show "out \<noteq> []" "last out = CHR 0x0A" if run: "Bytes g fmtv h n p = Some (Inr out)"
    using Bytes_root_newline[OF assms run] by simp_all
qed

text \<open>
  The fresh tree of \<^verbatim>\<open>New()\<close> renders as the line \<open>.\<close>; the parentless node of
  \<open>lonely_meta\<close> renders as its meta and value; the rendering of \<open>two_leaves\<close> from its root
  returns \<open>two_leaves_rendering\<close>, which ends with a line break.
\<close>

theorem Bytes_lonely_root_witness:
  "Root (cells fresh_root 0) = None \<and> Nodes (cells fresh_root 0) = []
   \<and> Meta (cells fresh_root 0) = VNil
   \<and> Bytes initial_globals (\<lambda>_. []) fresh_root 0 no_format = Some (Inr (''.'' @ [CHR 0x0A]))
   \<and> Root (cells lonely_meta 0) = None \<and> Nodes (cells lonely_meta 0) = []
   \<and> Bytes initial_globals (\<lambda>_. []) lonely_meta 0 no_format = Some (Inr (''[m]  v'' @ [CHR 0x0A]))
   \<and> Root (cells two_leaves 0) = None
   \<and> 0 \<le> IndentSize initial_globals
   \<and> shape_at two_leaves (Sh 0 [Sh 1 [], Sh 2 []]) \<and> links_ok two_leaves (Sh 0 [Sh 1 [], Sh 2 []])
   \<and> (\<exists>text. Bytes initial_globals (\<lambda>_. []) two_leaves 0 no_format = Some (Inr text)
               \<and> text \<noteq> [] \<and> last text = CHR 0x0A)
   \<and> Bytes initial_globals (\<lambda>_. []) two_leaves 0 no_format = Some (Inr two_leaves_rendering)
   \<and> two_leaves_rendering \<noteq> [] \<and> last two_leaves_rendering = CHR 0x0A"
proof -
  have a: "Root (cells fresh_root 0) = None" and b: "Root (cells lonely_meta 0) = None"
    and c: "Root (cells two_leaves 0) = None"
    by (simp_all add: fresh_root_cells lonely_meta_cells two_leaves_cells)
  have t: "0 \<le> IndentSize initial_globals
           \<and> shape_at two_leaves (Sh 0 [Sh 1 [], Sh 2 []]) \<and> links_ok two_leaves (Sh 0 [Sh 1 [], Sh 2 []])
           \<and> addr (Sh 0 [Sh 1 [], Sh 2 []]) = 0"
    by (simp add: two_leaves_cells initial_globals_def)
  show ?thesis
    using Bytes_lonely_root[OF a, of initial_globals "\<lambda>_. []" no_format]
      Bytes_lonely_root[OF b, of initial_globals "\<lambda>_. []" no_format]
      Bytes_lonely_root[OF c, of initial_globals "\<lambda>_. []" no_format "Sh 0 [Sh 1 [], Sh 2 []]"
        two_leaves_rendering]
      two_leaves_render a b c t
    by (simp add: fresh_root_cells lonely_meta_cells printNode_def printValue_def printMeta_def
          DefaultPrintValue_def DefaultPrintMeta_def no_format_def)
qed

text \<open>
  C9 as stated fails: the node of \<open>lonely_meta\<close> has no parent and no children and its
  value is \<open>v\<close>, but its rendering is not the value and a line break: the meta comes first.
\<close>

theorem Bytes_lonely_root_counterexample:
  "Root (cells lonely_meta 0) = None \<and> Nodes (cells lonely_meta 0) = []
   \<and> Value (cells lonely_meta 0) = VStr ''v''
   \<and> Bytes initial_globals (\<lambda>_. []) lonely_meta 0 no_format = Some (Inr (''[m]  v'' @ [CHR 0x0A]))
   \<and> Bytes initial_globals (\<lambda>_. []) lonely_meta 0 no_format \<noteq> Some (Inr (''v'' @ [CHR 0x0A]))"
  by (simp add: Bytes_def lonely_meta_cells render_defs no_format_def)

end
